theory Spec2Isabelle
  imports Complex_Main "HOL-Library.Char_ord" "HOL-Library.List_Lexorder"
begin

section \<open>Strings\<close>

text \<open>
  A \<^typ>\<open>char\<close> stands for one UTF-16 code unit below 256, so a \<^typ>\<open>string\<close> is a
  JavaScript string over that range. \<open>toLowerCase\<close> lowers the ASCII capitals and the
  Latin-1 capitals (\<open>0xC0\<close> to \<open>0xDE\<close> without the multiplication sign \<open>0xD7\<close>) by adding 32,
  as \<open>String.prototype.toLowerCase\<close> does on these code units.
\<close>

definition lowerChar :: "char \<Rightarrow> char" where
  "lowerChar c =
     (let n = (of_char c :: nat)
      in if (65 \<le> n \<and> n \<le> 90) \<or> (192 \<le> n \<and> n \<le> 222 \<and> n \<noteq> 215)
         then char_of (n + 32) else c)"

definition toLowerCase :: "string \<Rightarrow> string" where
  "toLowerCase s = map lowerChar s"

text \<open>
  A field of a row is read from a spreadsheet cell and may be absent at run time, although
  the interface \<open>FabricData\<close> declares it a string: \<open>None\<close> is JavaScript's \<open>undefined\<close>.
  A field that holds a number, a truth value or \<open>null\<close> is outside this row type, so every
  statement below is about rows whose fields are text or absent. \<open>templ\<close> is what a
  template literal \<open>`${v}`\<close> makes of a field.
\<close>

definition templ :: "string option \<Rightarrow> string" where
  "templ v = (case v of None \<Rightarrow> ''undefined'' | Some s \<Rightarrow> s)"

section \<open>Data model (\<open>types/index.ts\<close>)\<close>

record FabricData =
  Fabric :: "string option"
  ZoneConfiguration :: "string option"
  ZoneConfigurationStatus :: "string option"
  Zone :: "string option"
  ZoneType :: "string option"
  Alias :: "string option"
  AliasType :: "string option"
  MemberWWN :: "string option"
  PeerZoneMemberType :: "string option"
  PortRole :: "string option"
  LoggedIn :: "string option"
  Vendor :: "string option"
  SlotPort :: "string option"

record WWNInfo =
  wwn :: "string option"
  isLoggedIn :: bool
  fabric :: "string option"

datatype Verdict = OK | Error

text \<open>
  The four strings of \<open>finalValidation\<close>: \<open>'Good'\<close>, \<open>'FAB-A Is BAD'\<close>, \<open>'FAB-B Is BAD'\<close>
  and \<open>'Both FABs Are BAD'\<close>.
\<close>

datatype FinalValidation = Good | FAB_A_Is_BAD | FAB_B_Is_BAD | Both_FABs_Are_BAD

record Counters =
  loggedIn :: nat
  notLoggedIn :: nat

text \<open>\<open>HostData & { wwns: WWNInfo[] }\<close>, the value type of the host map.\<close>

record HostData =
  hostName :: string
  fabA :: Counters
  fabB :: Counters
  wwns :: "WWNInfo list"

text \<open>\<open>ValidationResult\<close>; its field \<open>wwns\<close> is \<open>result_wwns\<close> here.\<close>

record ValidationResult =
  host :: string
  result_wwns :: "WWNInfo list"
  fabA_LoggedInYes :: nat
  fabA_LoggedInNo :: nat
  validationA :: Verdict
  fabB_LoggedInYes :: nat
  fabB_LoggedInNo :: nat
  validationB :: Verdict
  finalValidation :: FinalValidation

text \<open>The private fields of the class \<open>FabricValidator\<close>.\<close>

record FabricValidator =
  data :: "FabricData list"
  originalDataCount :: int
  duplicatesRemoved :: int

text \<open>The object returned by \<open>getSummary\<close>.\<close>

record Summary =
  total :: nat
  good :: nat
  fabABad :: nat
  fabBBad :: nat
  bothBad :: nat
  percentageGood :: int
  originalEntries :: int
  duplicatesRemovedOut :: int
  uniqueEntries :: int

datatype error = TypeError

section \<open>\<open>removeDuplicates\<close>\<close>

text \<open>The key \<open>`${entry.Fabric}|${entry.Alias}|${entry['Member WWN / D,P']}`\<close>.\<close>

definition dedupKey :: "FabricData \<Rightarrow> string" where
  "dedupKey entry = templ (Fabric entry) @ ''|'' @ templ (Alias entry) @ ''|'' @ templ (MemberWWN entry)"

text \<open>
  One round of the \<open>forEach\<close>: the state is the set \<open>seen\<close> and the array \<open>uniqueData\<close>.
\<close>

definition dedupStep :: "FabricData \<Rightarrow> string set \<times> FabricData list \<Rightarrow> string set \<times> FabricData list" where
  "dedupStep entry st =
     (let seen = fst st; uniqueData = snd st; key = dedupKey entry
      in if key \<notin> seen then (insert key seen, uniqueData @ [entry]) else (seen, uniqueData))"

definition removeDuplicates :: "FabricData list \<Rightarrow> FabricData list" where
  "removeDuplicates rows = snd (fold dedupStep rows ({}, []))"

definition newFabricValidator :: "FabricData list \<Rightarrow> FabricValidator" where
  "newFabricValidator rows =
     (let originalDataCount = int (length rows);
          uniqueData = removeDuplicates rows
      in \<lparr>data = uniqueData,
          originalDataCount = originalDataCount,
          duplicatesRemoved = originalDataCount - int (length uniqueData)\<rparr>)"

section \<open>\<open>extractHostName\<close>\<close>

text \<open>
  The regular expression \<open>_[^_]*$\<close> tried at the start of a text: an underscore, then the
  longest run of characters other than the underscore, which has to reach the end of the
  text (a shorter run ends before a character of the run, where \<open>$\<close> fails).
\<close>

fun matchesHere :: "string \<Rightarrow> bool" where
  "matchesHere [] = False"
| "matchesHere (c # cs) = (c = CHR ''_'' \<and> dropWhile (\<lambda>d. d \<noteq> CHR ''_'') cs = [])"

text \<open>
  \<open>alias.replace(/_[^_]*$/, '')\<close>: the expression is tried at each position from the left;
  the first match, which runs to the end of the alias, is replaced by the empty text, and
  an alias with no match comes back unchanged.
\<close>

fun extractHostName :: "string \<Rightarrow> string" where
  "extractHostName [] = []"
| "extractHostName (c # cs) = (if matchesHere (c # cs) then [] else c # extractHostName cs)"

section \<open>\<open>groupByHost\<close>\<close>

text \<open>
  The \<open>Map\<close> from host name to host data is an association list in insertion order, which
  is the order \<open>Map.prototype.forEach\<close> visits. \<open>mapSet\<close> is \<open>Map.prototype.set\<close>: a key
  already present keeps its place, a new key goes to the end.
\<close>

type_synonym hostMap = "(string \<times> HostData) list"

definition mapHas :: "hostMap \<Rightarrow> string \<Rightarrow> bool" where
  "mapHas m k = (map_of m k \<noteq> None)"

definition mapGet :: "hostMap \<Rightarrow> string \<Rightarrow> HostData option" where
  "mapGet m k = map_of m k"

fun mapSet :: "hostMap \<Rightarrow> string \<Rightarrow> HostData \<Rightarrow> hostMap" where
  "mapSet [] k v = [(k, v)]"
| "mapSet (p # ps) k v = (if fst p = k then (k, v) # ps else p # mapSet ps k v)"

text \<open>The increments of one counter pair.\<close>

definition count :: "bool \<Rightarrow> Counters \<Rightarrow> Counters" where
  "count yes c = (if yes then c\<lparr>loggedIn := loggedIn c + 1\<rparr> else c\<lparr>notLoggedIn := notLoggedIn c + 1\<rparr>)"

text \<open>
  One round of the \<open>forEach\<close> of \<open>groupByHost\<close>. Calling \<open>replace\<close> or \<open>toLowerCase\<close> on an
  absent field raises a \<open>TypeError\<close>, in the order the source reads the fields (as it
  does on a field that is present and no string, which the row type leaves out); an absent
  \<open>Fabric\<close> or \<open>Member WWN / D,P\<close> is only stored and compared. The host data is an object
  held by the map, so changing it changes the map's entry.
\<close>

definition groupStep :: "hostMap \<Rightarrow> FabricData \<Rightarrow> error + hostMap" where
  "groupStep hostMap entry =
     (case Alias entry of None \<Rightarrow> Inl TypeError | Some alias \<Rightarrow>
      (case LoggedIn entry of None \<Rightarrow> Inl TypeError | Some flag \<Rightarrow>
       (let hostName = extractHostName alias;
            isLoggedIn = (toLowerCase flag = ''yes'');
            fabric = Fabric entry;
            wwn = MemberWWN entry;
            hostMap1 = (if \<not> mapHas hostMap hostName
                        then mapSet hostMap hostName
                               \<lparr>hostName = hostName,
                                fabA = \<lparr>loggedIn = 0, notLoggedIn = 0\<rparr>,
                                fabB = \<lparr>loggedIn = 0, notLoggedIn = 0\<rparr>,
                                wwns = []\<rparr>
                        else hostMap)
        in (case mapGet hostMap1 hostName of None \<Rightarrow> Inl TypeError | Some hostData \<Rightarrow>
            (let existingWWN = find (\<lambda>w. WWNInfo.wwn w = wwn \<and> WWNInfo.fabric w = fabric) (wwns hostData);
                 hostData1 = (if existingWWN = None
                              then hostData\<lparr>wwns := wwns hostData @
                                     [\<lparr>wwn = wwn, isLoggedIn = isLoggedIn, fabric = fabric\<rparr>]\<rparr>
                              else hostData);
                 hostData2 = (if fabric = Some ''FAB-A''
                              then hostData1\<lparr>fabA := count isLoggedIn (fabA hostData1)\<rparr>
                              else if fabric = Some ''FAB-B''
                              then hostData1\<lparr>fabB := count isLoggedIn (fabB hostData1)\<rparr>
                              else hostData1)
             in Inr (mapSet hostMap1 hostName hostData2))))))"

text \<open>The \<open>forEach\<close> over the rows: a raised error ends it.\<close>

fun groupLoop :: "hostMap \<Rightarrow> FabricData list \<Rightarrow> error + hostMap" where
  "groupLoop hostMap [] = Inr hostMap"
| "groupLoop hostMap (entry # rest) =
     (case groupStep hostMap entry of Inl e \<Rightarrow> Inl e | Inr hostMap' \<Rightarrow> groupLoop hostMap' rest)"

definition groupByHost :: "FabricValidator \<Rightarrow> error + hostMap" where
  "groupByHost this = groupLoop [] (data this)"

section \<open>\<open>validateFabric\<close>, \<open>getFinalValidation\<close>, \<open>validate\<close>\<close>

definition validateFabric :: "nat \<Rightarrow> nat \<Rightarrow> Verdict" where
  "validateFabric nLoggedIn nNotLoggedIn =
     (if (nLoggedIn = 2 \<and> nNotLoggedIn = 2) \<or> (nLoggedIn = 1 \<and> nNotLoggedIn = 0) then OK else Error)"

definition getFinalValidation :: "Verdict \<Rightarrow> Verdict \<Rightarrow> FinalValidation" where
  "getFinalValidation vA vB =
     (if vA = OK \<and> vB = OK then Good
      else if vA = Error \<and> vB = Error then Both_FABs_Are_BAD
      else if vA = Error then FAB_A_Is_BAD
      else FAB_B_Is_BAD)"

text \<open>The body of \<open>hostMap.forEach\<close> in \<open>validate\<close>: the result pushed for one map entry.\<close>

definition toResult :: "string \<times> HostData \<Rightarrow> ValidationResult" where
  "toResult kv =
     (let hostName = fst kv; hostData = snd kv;
          validationA = validateFabric (loggedIn (fabA hostData)) (notLoggedIn (fabA hostData));
          validationB = validateFabric (loggedIn (fabB hostData)) (notLoggedIn (fabB hostData));
          finalValidation = getFinalValidation validationA validationB
      in \<lparr>host = hostName,
          result_wwns = wwns hostData,
          fabA_LoggedInYes = loggedIn (fabA hostData),
          fabA_LoggedInNo = notLoggedIn (fabA hostData),
          validationA = validationA,
          fabB_LoggedInYes = loggedIn (fabB hostData),
          fabB_LoggedInNo = notLoggedIn (fabB hostData),
          validationB = validationB,
          finalValidation = finalValidation\<rparr>)"

text \<open>
  \<open>Array.prototype.sort\<close> with a comparison function is a stable sort: an element goes
  before the first element it does not compare greater than, so equal elements keep
  their order.
\<close>

fun insertBy :: "('a \<Rightarrow> 'a \<Rightarrow> int) \<Rightarrow> 'a \<Rightarrow> 'a list \<Rightarrow> 'a list" where
  "insertBy cmp x [] = [x]"
| "insertBy cmp x (y # ys) = (if cmp x y \<le> 0 then x # y # ys else y # insertBy cmp x ys)"

definition sortBy :: "('a \<Rightarrow> 'a \<Rightarrow> int) \<Rightarrow> 'a list \<Rightarrow> 'a list" where
  "sortBy cmp xs = foldr (insertBy cmp) xs []"

text \<open>
  \<open>String.prototype.localeCompare\<close> belongs to the host's internationalisation library and
  depends on its locale, so \<open>validate\<close> takes it as the parameter \<open>localeCompare\<close>.
\<close>

definition validate :: "(string \<Rightarrow> string \<Rightarrow> int) \<Rightarrow> FabricValidator \<Rightarrow> error + ValidationResult list" where
  "validate localeCompare this =
     (case groupByHost this of
        Inl e \<Rightarrow> Inl e
      | Inr hostMap \<Rightarrow> Inr (sortBy (\<lambda>a b. localeCompare (host a) (host b)) (map toResult hostMap)))"

text \<open>
  The comparison the root collation of the Unicode collation algorithm yields on texts of
  ASCII letters: alphabetical without regard to case first; between texts that differ in
  case only, the one with the lower-case letter at the first difference comes first.
\<close>

definition rootCompare :: "string \<Rightarrow> string \<Rightarrow> int" where
  "rootCompare a b =
     (if toLowerCase a < toLowerCase b then - 1
      else if toLowerCase b < toLowerCase a then 1
      else if a = b then 0
      else if b < a then - 1 else 1)"

text \<open>Comparison of the UTF-16 code units, the ordinary lexicographic order of strings.\<close>

definition codeUnitCompare :: "string \<Rightarrow> string \<Rightarrow> int" where
  "codeUnitCompare a b = (if a < b then - 1 else if a = b then 0 else 1)"

section \<open>\<open>getSummary\<close>\<close>

text \<open>
  JavaScript numbers are IEEE 754 binary64 values. A positive one is a pair \<open>(m, e)\<close>
  standing for \<open>m * 2 ^ e\<close>, with \<open>m\<close> of at most 53 bits; \<open>(0, 0)\<close> is zero. The values
  here are quotients of list lengths and their hundredfold, far from overflow and from
  the subnormal range.
\<close>

type_synonym double = "nat \<times> int"

fun bits :: "nat \<Rightarrow> nat" where
  "bits n = (if n = 0 then 0 else Suc (bits (n div 2)))"

declare bits.simps [simp del]

definition pow2 :: "int \<Rightarrow> nat" where
  "pow2 k = (if 0 \<le> k then 2 ^ nat k else 1)"

text \<open>The integer nearest to \<open>p / q\<close>, a tie going to the even one.\<close>

definition roundEven :: "nat \<Rightarrow> nat \<Rightarrow> nat" where
  "roundEven p q =
     (let n = p div q; r = p mod q
      in if 2 * r < q then n else if q < 2 * r then n + 1 else if even n then n else n + 1)"

text \<open>
  The binary64 value nearest to the positive rational \<open>p / q\<close>: the exponent \<open>e\<close> puts
  \<open>p / (q * 2 ^ e)\<close> between \<open>2 ^ 52\<close> and \<open>2 ^ 53\<close>, and the significand is rounded to the
  nearest integer, ties to even.
\<close>

definition toDouble :: "nat \<Rightarrow> nat \<Rightarrow> double" where
  "toDouble p q =
     (if p = 0 then (0, 0)
      else let e0 = int (bits p) - int (bits q) - 53;
               e = (if 2 ^ 53 * (q * pow2 e0) \<le> p * pow2 (- e0) then e0 + 1 else e0)
           in (roundEven (p * pow2 (- e)) (q * pow2 e), e))"

text \<open>The operators \<open>/\<close> and \<open>*\<close> at the operands \<open>getSummary\<close> gives them, and \<open>Math.round\<close>.\<close>

definition jsDivide :: "nat \<Rightarrow> nat \<Rightarrow> double" where
  "jsDivide a b = toDouble a b"

definition jsTimes :: "double \<Rightarrow> nat \<Rightarrow> double" where
  "jsTimes x k = toDouble (fst x * k * pow2 (snd x)) (pow2 (- snd x))"

text \<open>\<open>Math.round x\<close> is \<open>floor (x + 1/2)\<close>, computed exactly.\<close>

definition mathRound :: "double \<Rightarrow> int" where
  "mathRound x = int ((2 * fst x * pow2 (snd x) + pow2 (- snd x)) div (2 * pow2 (- snd x)))"

definition getSummary :: "FabricValidator \<Rightarrow> ValidationResult list \<Rightarrow> Summary" where
  "getSummary this results =
     (let total = length results;
          good = length (filter (\<lambda>r. finalValidation r = Good) results);
          fabABad = length (filter (\<lambda>r. finalValidation r = FAB_A_Is_BAD) results);
          fabBBad = length (filter (\<lambda>r. finalValidation r = FAB_B_Is_BAD) results);
          bothBad = length (filter (\<lambda>r. finalValidation r = Both_FABs_Are_BAD) results)
      in \<lparr>total = total,
          good = good,
          fabABad = fabABad,
          fabBBad = fabBBad,
          bothBad = bothBad,
          percentageGood = (if total > 0 then mathRound (jsTimes (jsDivide good total) 100) else 0),
          originalEntries = originalDataCount this,
          duplicatesRemovedOut = duplicatesRemoved this,
          uniqueEntries = int (length (data this))\<rparr>)"

section \<open>Auxiliary definitions\<close>

text \<open>
  The loop of \<open>removeDuplicates\<close> as a recursion over the rows still to come, given the
  keys seen so far.
\<close>

fun keepNew :: "string set \<Rightarrow> FabricData list \<Rightarrow> FabricData list" where
  "keepNew seen [] = []"
| "keepNew seen (e # es) =
     (if dedupKey e \<in> seen then keepNew seen es else e # keepNew (insert (dedupKey e) seen) es)"

text \<open>
  Following the spec's words: the deduplication key is the ordered triple (fabric, alias,
  memberAddress), and \<open>dedupeSpec\<close> retains the rows whose triple has not occurred before.
  \<open>barFree\<close> holds of a row whose three key fields are present with no \<open>|\<close> in the fabric
  or the alias.
\<close>

definition triple :: "FabricData \<Rightarrow> string option \<times> string option \<times> string option" where
  "triple e = (Fabric e, Alias e, MemberWWN e)"

fun dedupeSpec :: "(string option \<times> string option \<times> string option) set \<Rightarrow> FabricData list \<Rightarrow> FabricData list" where
  "dedupeSpec seen [] = []"
| "dedupeSpec seen (e # es) =
     (if triple e \<in> seen then dedupeSpec seen es else e # dedupeSpec (insert (triple e) seen) es)"

definition barFree :: "FabricData \<Rightarrow> bool" where
  "barFree e \<longleftrightarrow>
     (\<exists>f a w. Fabric e = Some f \<and> Alias e = Some a \<and> MemberWWN e = Some w
        \<and> CHR ''|'' \<notin> set f \<and> CHR ''|'' \<notin> set a)"

text \<open>A counter of host \<open>k\<close> as the map holds it; a host not in the map yet counts zero.\<close>

definition readCounter :: "(HostData \<Rightarrow> nat) \<Rightarrow> hostMap \<Rightarrow> string \<Rightarrow> nat" where
  "readCounter f m k = (case map_of m k of None \<Rightarrow> 0 | Some d \<Rightarrow> f d)"

text \<open>
  The rows a counter is specified to count: the alias derives host \<open>h\<close>, the fabric is
  \<open>fab\<close>, and the lowered \<open>Logged In\<close> text is \<open>yes\<close> (\<open>yes = True\<close>) or is not
  (\<open>yes = False\<close>).
\<close>

definition rowOf :: "string \<Rightarrow> string \<Rightarrow> bool \<Rightarrow> FabricData \<Rightarrow> bool" where
  "rowOf h fab yes e \<longleftrightarrow>
     map_option extractHostName (Alias e) = Some h \<and> Fabric e = Some fab
     \<and> (map_option toLowerCase (LoggedIn e) = Some ''yes'') = yes"

text \<open>
  A row with the four columns the validator reads and no other column; the result of a host
  with given counters; a small table and the results \<open>validate\<close> gives for it.
\<close>

definition row :: "string \<Rightarrow> string \<Rightarrow> string \<Rightarrow> string \<Rightarrow> FabricData" where
  "row f a w l =
     \<lparr>Fabric = Some f, ZoneConfiguration = None, ZoneConfigurationStatus = None, Zone = None,
      ZoneType = None, Alias = Some a, AliasType = None, MemberWWN = Some w,
      PeerZoneMemberType = None, PortRole = None, LoggedIn = Some l, Vendor = None,
      SlotPort = None\<rparr>"

definition hostWith :: "string \<Rightarrow> nat \<Rightarrow> nat \<Rightarrow> nat \<Rightarrow> nat \<Rightarrow> ValidationResult" where
  "hostWith h ya na yb nb =
     toResult (h, \<lparr>hostName = h, fabA = \<lparr>loggedIn = ya, notLoggedIn = na\<rparr>,
                  fabB = \<lparr>loggedIn = yb, notLoggedIn = nb\<rparr>, wwns = []\<rparr>)"

definition sampleRows :: "FabricData list" where
  "sampleRows =
     [row ''FAB-A'' ''srv1_1s'' ''w1'' ''Yes'',
      row ''FAB-A'' ''srv1_1s'' ''w1'' ''YES'',
      row ''FAB-B'' ''srv1_2s'' ''w2'' ''no'',
      row ''FAB-X'' ''old_1'' ''w3'' ''yes'']"

definition sampleResults :: "ValidationResult list" where
  "sampleResults =
     [\<lparr>host = ''old'',
       result_wwns = [\<lparr>wwn = Some ''w3'', isLoggedIn = True, fabric = Some ''FAB-X''\<rparr>],
       fabA_LoggedInYes = 0, fabA_LoggedInNo = 0, validationA = Error,
       fabB_LoggedInYes = 0, fabB_LoggedInNo = 0, validationB = Error,
       finalValidation = Both_FABs_Are_BAD\<rparr>,
      \<lparr>host = ''srv1'',
       result_wwns = [\<lparr>wwn = Some ''w1'', isLoggedIn = True, fabric = Some ''FAB-A''\<rparr>,
                      \<lparr>wwn = Some ''w2'', isLoggedIn = False, fabric = Some ''FAB-B''\<rparr>],
       fabA_LoggedInYes = 1, fabA_LoggedInNo = 0, validationA = OK,
       fabB_LoggedInYes = 0, fabB_LoggedInNo = 1, validationB = Error,
       finalValidation = FAB_B_Is_BAD\<rparr>]"

text \<open>Two hosts whose names differ in case, and the results \<open>validate\<close> gives for them.\<close>

definition caseRows :: "FabricData list" where
  "caseRows = [row ''FAB-A'' ''B_1'' ''w1'' ''Yes'', row ''FAB-A'' ''a_1'' ''w2'' ''Yes'']"

definition caseResults :: "ValidationResult list" where
  "caseResults =
     [\<lparr>host = ''a'',
       result_wwns = [\<lparr>wwn = Some ''w2'', isLoggedIn = True, fabric = Some ''FAB-A''\<rparr>],
       fabA_LoggedInYes = 1, fabA_LoggedInNo = 0, validationA = OK,
       fabB_LoggedInYes = 0, fabB_LoggedInNo = 0, validationB = Error,
       finalValidation = FAB_B_Is_BAD\<rparr>,
      \<lparr>host = ''B'',
       result_wwns = [\<lparr>wwn = Some ''w1'', isLoggedIn = True, fabric = Some ''FAB-A''\<rparr>],
       fabA_LoggedInYes = 1, fabA_LoggedInNo = 0, validationA = OK,
       fabB_LoggedInYes = 0, fabB_LoggedInNo = 0, validationB = Error,
       finalValidation = FAB_B_Is_BAD\<rparr>]"

section \<open>The validation rule\<close>

text \<open>
  C1. For all non-negative integers l and n, ruleCheck(l, n) returns OK if and only if
  (l, n) is (2, 2) or (1, 0); every other pair, including (0, 0), returns Error.
\<close>

theorem C1_ruleCheck:
  "(validateFabric l n = OK \<longleftrightarrow> (l, n) = (2, 2) \<or> (l, n) = (1, 0))
   \<and> (validateFabric l n = Error \<longleftrightarrow> \<not> ((l, n) = (2, 2) \<or> (l, n) = (1, 0)))
   \<and> validateFabric 0 0 = Error"
  by (simp add: validateFabric_def)

text \<open>
  C4. finalValidation is a total function of the pair (validationA, validationB): Good when
  both are OK, Both-Bad when both are Error, FabA-Bad when only validationA is Error,
  FabB-Bad when only validationB is Error. The four pairs are all the pairs there are, and
  every result of \<open>validate\<close> carries the verdict of its own two fabric verdicts.
\<close>

theorem C4_finalValidation:
  "getFinalValidation OK OK = Good
   \<and> getFinalValidation Error Error = Both_FABs_Are_BAD
   \<and> getFinalValidation Error OK = FAB_A_Is_BAD
   \<and> getFinalValidation OK Error = FAB_B_Is_BAD
   \<and> (a, b) \<in> {(OK, OK), (Error, Error), (Error, OK), (OK, Error)}
   \<and> finalValidation (toResult kv) = getFinalValidation (validationA (toResult kv)) (validationB (toResult kv))"
  by (cases a; cases b) (simp_all add: getFinalValidation_def toResult_def Let_def)

section \<open>Lowering\<close>

text \<open>The texts that lower to \<open>yes\<close> are its eight spellings in small and capital letters.\<close>

lemma lowerChar_y: "lowerChar c = CHR ''y'' \<longleftrightarrow> c = CHR ''y'' \<or> c = CHR ''Y''"
  by (cases c) (auto simp: lowerChar_def char_of_def bit_Suc_0_iff Let_def)

lemma lowerChar_e: "lowerChar c = CHR ''e'' \<longleftrightarrow> c = CHR ''e'' \<or> c = CHR ''E''"
  by (cases c) (auto simp: lowerChar_def char_of_def bit_Suc_0_iff Let_def)

lemma lowerChar_s: "lowerChar c = CHR ''s'' \<longleftrightarrow> c = CHR ''s'' \<or> c = CHR ''S''"
  by (cases c) (auto simp: lowerChar_def char_of_def bit_Suc_0_iff Let_def)

lemma toLowerCase_yes:
  "toLowerCase s = ''yes'' \<longleftrightarrow>
     (\<exists>a b c. s = [a, b, c] \<and> (a = CHR ''y'' \<or> a = CHR ''Y'') \<and> (b = CHR ''e'' \<or> b = CHR ''E'')
        \<and> (c = CHR ''s'' \<or> c = CHR ''S''))"
proof -
  have "toLowerCase s = ''yes'' \<longleftrightarrow>
          (\<exists>a b c. s = [a, b, c] \<and> lowerChar a = CHR ''y'' \<and> lowerChar b = CHR ''e''
             \<and> lowerChar c = CHR ''s'')"
    by (auto simp: toLowerCase_def map_eq_Cons_conv)
  then show ?thesis by (simp only: lowerChar_y lowerChar_e lowerChar_s)
qed

section \<open>Host names\<close>

lemma extractHostName_strip:
  "CHR ''_'' \<notin> set t \<Longrightarrow> extractHostName (h @ CHR ''_'' # t) = h"
  by (induction h) (auto simp: dropWhile_eq_Nil_conv)

lemma extractHostName_plain: "CHR ''_'' \<notin> set a \<Longrightarrow> extractHostName a = a"
  by (induction a) auto

text \<open>
  C5. Host identity derivation is a function of the alias string alone: it removes the text
  after the last underscore together with that underscore (an alias \<open>h_t\<close> with no underscore
  in \<open>t\<close> gives \<open>h\<close>), and an alias containing no underscore comes back unchanged.
\<close>

theorem C5_extractHostName:
  "(CHR ''_'' \<notin> set t \<longrightarrow> extractHostName (h @ ''_'' @ t) = h)
   \<and> (CHR ''_'' \<notin> set a \<longrightarrow> extractHostName a = a)"
  by (simp add: extractHostName_strip extractHostName_plain)

theorem C5_extractHostName_witness:
  "extractHostName ''MN01_1-1-A_FE_FC01_PG01'' = ''MN01_1-1-A_FE_FC01''
   \<and> extractHostName ''srv1'' = ''srv1''"
  using C5_extractHostName [of "''PG01''" "''MN01_1-1-A_FE_FC01''" "''srv1''"]
  by simp

section \<open>Deduplication\<close>

lemma fold_dedupStep:
  "fold dedupStep rows (seen, acc) = (seen \<union> dedupKey ` set rows, acc @ keepNew seen rows)"
  by (induction rows arbitrary: seen acc) (auto simp: dedupStep_def Let_def)

lemma removeDuplicates_keepNew: "removeDuplicates rows = keepNew {} rows"
  by (simp add: removeDuplicates_def fold_dedupStep)

lemma keepNew_set: "set (keepNew seen rows) \<subseteq> set rows"
  by (induction rows arbitrary: seen) auto

lemma keepNew_keys: "dedupKey ` set (keepNew seen rows) = dedupKey ` set rows - seen"
  by (induction rows arbitrary: seen) auto

lemma keepNew_distinct: "distinct (map dedupKey (keepNew seen rows))"
proof (induction rows arbitrary: seen)
  case Nil
  show ?case by simp
next
  case (Cons e es)
  have "dedupKey e \<notin> dedupKey ` set (keepNew (insert (dedupKey e) seen) es)"
    by (simp add: keepNew_keys)
  with Cons show ?case by simp
qed

lemma keepNew_length: "length (keepNew seen rows) \<le> length rows"
  by (induction rows arbitrary: seen) (auto intro: le_SucI)

lemma keepNew_fixed:
  "distinct (map dedupKey rows) \<Longrightarrow> dedupKey ` set rows \<inter> seen = {} \<Longrightarrow> keepNew seen rows = rows"
  by (induction rows arbitrary: seen) auto

text \<open>
  C9. Deduplication is idempotent: dedupe(dedupe(rows)) = dedupe(rows) for every row
  sequence.
\<close>

theorem C9_idempotent: "removeDuplicates (removeDuplicates rows) = removeDuplicates rows"
  using keepNew_fixed [of "keepNew {} rows" "{}"] keepNew_distinct [of "{}" rows]
  by (simp add: removeDuplicates_keepNew)

text \<open>
  What \<open>removeDuplicates\<close> does: a row is kept when its key has not occurred before, in
  the order of the input. The key is a function of the triple, so the output has no two
  rows with the same triple; where no key field holds a \<open>|\<close> the key determines the
  triple, and the rows kept are the first occurrences of the triples.
\<close>

lemma dedupKey_triple: "triple x = triple y \<Longrightarrow> dedupKey x = dedupKey y"
  by (simp add: triple_def dedupKey_def)

lemma keepNew_snoc:
  "keepNew seen (rows @ [e]) =
     keepNew seen rows @ (if dedupKey e \<in> seen \<union> dedupKey ` set rows then [] else [e])"
  by (induction rows arbitrary: seen) auto

lemma removeDuplicates_snoc:
  "removeDuplicates (rows @ [e]) =
     removeDuplicates rows @ (if dedupKey e \<in> dedupKey ` set rows then [] else [e])"
  by (simp add: removeDuplicates_keepNew keepNew_snoc)

lemma removeDuplicates_distinct_triples: "distinct (map triple (removeDuplicates rows))"
proof -
  have "distinct (map dedupKey (removeDuplicates rows))"
    by (simp add: removeDuplicates_keepNew keepNew_distinct)
  then have "inj_on dedupKey (set (removeDuplicates rows))" and d: "distinct (removeDuplicates rows)"
    by (simp_all add: distinct_map)
  then have "inj_on triple (set (removeDuplicates rows))"
    by (auto simp: inj_on_def dest: dedupKey_triple)
  with d show ?thesis by (simp add: distinct_map)
qed

lemma split_at_bar:
  "CHR ''|'' \<notin> set a \<Longrightarrow> CHR ''|'' \<notin> set b \<Longrightarrow> a @ CHR ''|'' # r = b @ CHR ''|'' # s
   \<Longrightarrow> a = b \<and> r = s"
proof (induction a arbitrary: b)
  case Nil
  then show ?case by (cases b) auto
next
  case (Cons c a)
  then show ?case by (cases b) auto
qed

lemma dedupKey_inj:
  assumes "barFree x" and "barFree y" and "dedupKey x = dedupKey y"
  shows "triple x = triple y"
proof -
  from assms(1) obtain f a w where x: "Fabric x = Some f" "Alias x = Some a" "MemberWWN x = Some w"
    "CHR ''|'' \<notin> set f" "CHR ''|'' \<notin> set a" by (auto simp: barFree_def)
  from assms(2) obtain f' a' w' where y: "Fabric y = Some f'" "Alias y = Some a'" "MemberWWN y = Some w'"
    "CHR ''|'' \<notin> set f'" "CHR ''|'' \<notin> set a'" by (auto simp: barFree_def)
  from assms(3) x y have k: "f @ CHR ''|'' # (a @ CHR ''|'' # w) = f' @ CHR ''|'' # (a' @ CHR ''|'' # w')"
    by (simp add: dedupKey_def templ_def)
  from split_at_bar [OF x(4) y(4) k] have 1: "f = f'" and k2: "a @ CHR ''|'' # w = a' @ CHR ''|'' # w'"
    by simp_all
  from split_at_bar [OF x(5) y(5) k2] 1 x y show ?thesis by (simp add: triple_def)
qed

lemma keepNew_dedupeSpec:
  assumes "\<forall>e\<in>A \<union> set rows. barFree e"
  shows "keepNew (dedupKey ` A) rows = dedupeSpec (triple ` A) rows"
  using assms
proof (induction rows arbitrary: A)
  case Nil
  show ?case by simp
next
  case (Cons e es)
  have iff: "dedupKey e \<in> dedupKey ` A \<longleftrightarrow> triple e \<in> triple ` A"
  proof
    assume "dedupKey e \<in> dedupKey ` A"
    then obtain x where "x \<in> A" "dedupKey e = dedupKey x" by auto
    with Cons.prems dedupKey_inj [of e x] show "triple e \<in> triple ` A" by auto
  next
    assume "triple e \<in> triple ` A"
    then obtain x where "x \<in> A" "triple e = triple x" by auto
    with dedupKey_triple [of e x] show "dedupKey e \<in> dedupKey ` A" by auto
  qed
  have new: "keepNew (dedupKey ` insert e A) es = dedupeSpec (triple ` insert e A) es"
    using Cons.prems by (intro Cons.IH) auto
  have old: "keepNew (dedupKey ` A) es = dedupeSpec (triple ` A) es"
    using Cons.prems by (intro Cons.IH) auto
  from iff new old show ?case by simp
qed

lemma removeDuplicates_by_triple:
  "\<forall>e\<in>set rows. barFree e \<Longrightarrow> removeDuplicates rows = dedupeSpec {} rows"
  using keepNew_dedupeSpec [of "{}" rows] by (simp add: removeDuplicates_keepNew)

text \<open>
  C2. For every input row sequence, dedupe retains exactly those rows whose (fabric, alias,
  memberAddress) triple does not occur in any earlier row. The code compares the three
  fields joined by \<open>|\<close> instead, so two different triples that join to the same text
  count as one: below, the second row is dropped although its triple is new.
\<close>

theorem C2_key_collision:
  "removeDuplicates [row ''FAB-A'' ''h_1|x'' ''y'' ''Yes'', row ''FAB-A'' ''h_1'' ''x|y'' ''Yes'']
     = [row ''FAB-A'' ''h_1|x'' ''y'' ''Yes'']
   \<and> (Fabric (row ''FAB-A'' ''h_1'' ''x|y'' ''Yes''), Alias (row ''FAB-A'' ''h_1'' ''x|y'' ''Yes''),
       MemberWWN (row ''FAB-A'' ''h_1'' ''x|y'' ''Yes''))
     \<noteq> (Fabric (row ''FAB-A'' ''h_1|x'' ''y'' ''Yes''), Alias (row ''FAB-A'' ''h_1|x'' ''y'' ''Yes''),
        MemberWWN (row ''FAB-A'' ''h_1|x'' ''y'' ''Yes''))"
  by (simp add: removeDuplicates_def dedupStep_def dedupKey_def templ_def row_def)

section \<open>Summary\<close>

lemma verdict_counts: "length (filter (\<lambda>r. finalValidation r = Good) rs)
     + length (filter (\<lambda>r. finalValidation r = FAB_A_Is_BAD) rs)
     + length (filter (\<lambda>r. finalValidation r = FAB_B_Is_BAD) rs)
     + length (filter (\<lambda>r. finalValidation r = Both_FABs_Are_BAD) rs) = length rs"
proof (induction rs)
  case Nil
  show ?case by simp
next
  case (Cons r rs)
  then show ?case by (cases "finalValidation r") simp_all
qed

lemma getSummary_counts:
  "total (getSummary this rs) = length rs
   \<and> good (getSummary this rs) + fabABad (getSummary this rs) + fabBBad (getSummary this rs)
       + bothBad (getSummary this rs) = total (getSummary this rs)
   \<and> (total (getSummary this rs) = 0 \<longrightarrow> percentageGood (getSummary this rs) = 0)
   \<and> uniqueEntries (getSummary (newFabricValidator rows) rs)
       + duplicatesRemovedOut (getSummary (newFabricValidator rows) rs)
       = originalEntries (getSummary (newFabricValidator rows) rs)"
  using verdict_counts [of rs] by (simp add: getSummary_def newFabricValidator_def Let_def)

subsection \<open>Binary64 arithmetic\<close>

text \<open>
  \<open>toDouble\<close> yields a significand of 53 bits (or the next power of two) and a value within
  half a unit in the last place of the exact quotient, so \<open>jsDivide\<close> and \<open>jsTimes\<close> are
  the correctly rounded division and multiplication.
\<close>

lemma bits_upper: "n < 2 ^ bits n"
proof (induction n rule: bits.induct)
  case (1 n)
  show ?case
  proof (cases "n = 0")
    case True
    then show ?thesis by simp
  next
    case False
    with 1 have "n div 2 < 2 ^ bits (n div 2)" by simp
    then have "n < 2 * 2 ^ bits (n div 2)" by linarith
    with False show ?thesis by (subst bits.simps) simp
  qed
qed

lemma bits_lower: "0 < n \<Longrightarrow> 2 ^ bits n \<le> 2 * n"
proof (induction n rule: bits.induct)
  case (1 n)
  show ?case
  proof (cases "n div 2 = 0")
    case True
    with 1 have "n = 1" by linarith
    then show ?thesis by (subst bits.simps, subst bits.simps) simp
  next
    case False
    with 1 have "2 ^ bits (n div 2) \<le> 2 * (n div 2)" by simp
    then have "2 * 2 ^ bits (n div 2) \<le> 2 * n" by linarith
    with 1 show ?thesis by (subst bits.simps) simp
  qed
qed

lemma roundEven_near:
  assumes "0 < Q"
  shows "\<bar>2 * (int (roundEven P Q) * int Q - int P)\<bar> \<le> int Q"
proof -
  define n r where "n = P div Q" and "r = P mod Q"
  have P: "int P = int n * int Q + int r"
    unfolding n_def r_def by (metis div_mult_mod_eq of_nat_add of_nat_mult)
  have r: "r < Q" unfolding r_def using assms by simp
  have "roundEven P Q = n \<and> 2 * r \<le> Q \<or> roundEven P Q = n + 1 \<and> Q \<le> 2 * r"
    by (auto simp: roundEven_def Let_def n_def r_def)
  then show ?thesis
  proof
    assume "roundEven P Q = n \<and> 2 * r \<le> Q"
    then show ?thesis using P by simp
  next
    assume a: "roundEven P Q = n + 1 \<and> Q \<le> 2 * r"
    then have "int (roundEven P Q) * int Q - int P = int Q - int r"
      using P by (simp add: algebra_simps)
    with a r show ?thesis by simp
  qed
qed

lemma roundEven_lower:
  assumes "0 < Q" and "a * Q \<le> P"
  shows "a \<le> roundEven P Q"
proof -
  from assms have "a \<le> P div Q" by (simp add: less_eq_div_iff_mult_less_eq)
  moreover have "P div Q \<le> roundEven P Q" by (simp add: roundEven_def Let_def)
  ultimately show ?thesis by simp
qed

lemma roundEven_upper:
  assumes "0 < Q" and "P \<le> b * Q"
  shows "roundEven P Q \<le> b"
proof (cases "P = b * Q")
  case True
  with assms show ?thesis by (simp add: roundEven_def Let_def)
next
  case False
  with assms have "P < b * Q" by simp
  with assms have "P div Q < b" by (simp add: div_less_iff_less_mult)
  moreover have "roundEven P Q \<le> P div Q + 1" by (simp add: roundEven_def Let_def)
  ultimately show ?thesis by simp
qed

lemma exponent_normal:
  assumes p: "0 < p" and q: "0 < q"
  defines "e0 \<equiv> int (bits p) - int (bits q) - 53"
  defines "e \<equiv> (if 2 ^ 53 * (q * pow2 e0) \<le> p * pow2 (- e0) then e0 + 1 else e0)"
  shows "2 ^ 52 * (q * pow2 e) \<le> p * pow2 (- e) \<and> p * pow2 (- e) < 2 ^ 53 * (q * pow2 e)"
proof -
  define A B where "A = (2::nat) ^ bits q" and "B = (2::nat) ^ bits p"
  have pB: "p < B" "B \<le> 2 * p" and qA: "q < A" "A \<le> 2 * q"
    unfolding A_def B_def using bits_upper bits_lower p q by simp_all
  show ?thesis
  proof (cases "bits q + 53 \<le> bits p")
    case True
    define k where "k = bits p - (bits q + 53)"
    define K where "K = (2::nat) ^ k"
    have bp: "bits p = bits q + 53 + k" using True by (simp add: k_def)
    have e0: "e0 = int k" by (simp add: e0_def bp)
    have K: "0 < K" by (simp add: K_def)
    define X Y where "X = q * K" and "Y = A * K"
    have XY: "X < Y" "Y \<le> 2 * X"
      unfolding X_def Y_def using qA K by simp_all
    have BY: "B = 2 ^ 53 * Y"
      by (simp add: B_def Y_def A_def K_def bp power_add)
    have p0: "pow2 e0 = K" "pow2 (- e0) = 1" by (simp_all add: pow2_def e0 K_def)
    have L: "2 ^ 52 * X < p" and U: "p < 2 ^ 54 * X"
      using XY BY pB by simp_all
    show ?thesis
    proof (cases "2 ^ 53 * X \<le> p")
      case True
      then have e: "e = int (Suc k)" unfolding e_def p0 by (simp add: X_def e0)
      have ne: "0 \<le> e" "nat e = Suc k" "\<not> 0 \<le> - e" using e by simp_all
      have p1: "pow2 e = 2 * K" "pow2 (- e) = 1" by (simp_all add: pow2_def ne K_def)
      have "q * (2 * K) = 2 * X" by (simp add: X_def)
      with True U show ?thesis unfolding p1 by simp
    next
      case False
      then have e: "e = e0" unfolding e_def p0 by (simp add: X_def)
      from False L show ?thesis unfolding e p0 by (simp add: X_def)
    qed
  next
    case False
    define k where "k = bits q + 53 - bits p"
    define K where "K = (2::nat) ^ k"
    have k: "0 < k" and bq: "bits q + 53 = bits p + k" using False by (simp_all add: k_def)
    have e0: "e0 = - int k" using bq by (simp add: e0_def)
    have K: "0 < K" by (simp add: K_def)
    define X Y where "X = p * K" and "Y = B * K"
    have XY: "X < Y" "Y \<le> 2 * X"
      unfolding X_def Y_def using pB K by simp_all
    have AY: "2 ^ 53 * A = Y"
    proof -
      have "2 ^ 53 * A = (2::nat) ^ (bits q + 53)" by (simp add: A_def power_add)
      also have "\<dots> = Y" by (simp add: bq Y_def B_def K_def power_add)
      finally show ?thesis .
    qed
    have p0: "pow2 e0 = 1" "pow2 (- e0) = K" using k by (simp_all add: pow2_def e0 K_def)
    have L: "2 ^ 52 * q < X" and U: "X < 2 ^ 54 * q"
      using XY AY qA by simp_all
    show ?thesis
    proof (cases "2 ^ 53 * q \<le> X")
      case True
      then have e: "e = 1 - int k" unfolding e_def p0 by (simp add: X_def e0)
      obtain j where j: "k = Suc j" using k by (cases k) auto
      define K' where "K' = (2::nat) ^ j"
      have KK: "K = 2 * K'" by (simp add: K_def K'_def j)
      have ne: "- e = int j" using e j by simp
      have "pow2 e = (if j = 0 then 2 ^ 0 else 1)" using ne by (simp add: pow2_def)
      then have p1: "pow2 e = 1" "pow2 (- e) = K'"
        by (simp_all add: pow2_def ne K'_def)
      have "X = 2 * (p * K')" by (simp add: X_def KK)
      with True U show ?thesis unfolding p1 by (simp add: mult.commute)
    next
      case False
      then have e: "e = e0" unfolding e_def p0 by (simp add: X_def)
      from False L show ?thesis unfolding e p0 by (simp add: X_def)
    qed
  qed
qed

lemma pow2_pos: "0 < pow2 k"
  by (simp add: pow2_def)

lemma pow2_ratio: "real (pow2 e) / real (pow2 (- e)) = 2 powi e"
proof (cases "0 \<le> e")
  case True
  then have "pow2 (- e) = 1" by (auto simp: pow2_def)
  with True show ?thesis by (simp add: pow2_def power_int_def)
next
  case False
  then show ?thesis by (simp add: pow2_def power_int_def field_simps)
qed

lemma toDouble_nearest:
  assumes p: "0 < p" and q: "0 < q"
  shows "\<exists>m e. toDouble p q = (m, e) \<and> 2 ^ 52 \<le> m \<and> m \<le> 2 ^ 53
           \<and> \<bar>real m * 2 powi e - real p / real q\<bar> \<le> 2 powi e / 2"
proof -
  define e0 where "e0 = int (bits p) - int (bits q) - 53"
  define e where "e = (if 2 ^ 53 * (q * pow2 e0) \<le> p * pow2 (- e0) then e0 + 1 else e0)"
  define P Q where "P = p * pow2 (- e)" and "Q = q * pow2 e"
  define m where "m = roundEven P Q"
  have td: "toDouble p q = (m, e)"
    using p by (simp add: toDouble_def Let_def e0_def e_def P_def Q_def m_def)
  have Q: "0 < Q" using q pow2_pos by (simp add: Q_def)
  have "2 ^ 52 * Q \<le> P \<and> P < 2 ^ 53 * Q"
    unfolding P_def Q_def e_def e0_def by (rule exponent_normal [OF p q])
  then have n: "2 ^ 52 * Q \<le> P" "P \<le> 2 ^ 53 * Q" by simp_all
  have lo: "2 ^ 52 \<le> m" unfolding m_def using Q n(1) by (rule roundEven_lower)
  have hi: "m \<le> 2 ^ 53" unfolding m_def using Q n(2) by (rule roundEven_upper)
  have "\<bar>2 * (int m * int Q - int P)\<bar> \<le> int Q"
    unfolding m_def using Q by (rule roundEven_near)
  then have "\<bar>2 * (real m * real Q - real P)\<bar> \<le> real Q"
    by (metis (mono_tags) of_int_abs of_int_diff of_int_le_iff of_int_mult of_int_numeral of_int_of_nat_eq)
  moreover define d where "d = real m * real Q - real P"
  ultimately have "\<bar>2 * d\<bar> \<le> real Q" by simp
  then have "\<bar>d\<bar> \<le> real Q / 2" by (simp add: abs_mult)
  then have h: "\<bar>real m * real Q - real P\<bar> \<le> real Q / 2"
    by (simp add: d_def)
  have "real m - real P / real Q = (real m * real Q - real P) / real Q"
    using Q by (simp add: field_simps)
  then have "\<bar>real m - real P / real Q\<bar> = \<bar>real m * real Q - real P\<bar> / real Q"
    using Q by simp
  also have "\<dots> \<le> (real Q / 2) / real Q"
    using h Q by (intro divide_right_mono) simp_all
  finally have near: "\<bar>real m - real P / real Q\<bar> \<le> 1 / 2"
    using Q by simp
  have r: "real P / real Q * 2 powi e = real p / real q"
  proof -
    have "real P / real Q = (real p / real q) * (real (pow2 (- e)) / real (pow2 e))"
      by (simp add: P_def Q_def)
    also have "real (pow2 (- e)) / real (pow2 e) = 2 powi (- e)"
      using pow2_ratio [of "- e"] by simp
    finally show ?thesis by (simp add: power_int_minus field_simps)
  qed
  have "real m * 2 powi e - real p / real q = (real m - real P / real Q) * 2 powi e"
    by (simp add: r [symmetric] algebra_simps)
  then have "\<bar>real m * 2 powi e - real p / real q\<bar> = \<bar>real m - real P / real Q\<bar> * 2 powi e"
    by (simp add: abs_mult)
  also have "\<dots> \<le> 1 / 2 * 2 powi e"
    using near by (intro mult_right_mono) simp_all
  finally have "\<bar>real m * 2 powi e - real p / real q\<bar> \<le> 2 powi e / 2" by simp
  with td lo hi show ?thesis by blast
qed

lemma jsDivide_nearest:
  assumes "0 < a" and "0 < b"
  shows "\<exists>m e. jsDivide a b = (m, e) \<and> 2 ^ 52 \<le> m \<and> m \<le> 2 ^ 53
           \<and> \<bar>real m * 2 powi e - real a / real b\<bar> \<le> 2 powi e / 2"
  unfolding jsDivide_def using assms by (rule toDouble_nearest)

lemma jsTimes_nearest:
  assumes "0 < m" and "0 < k"
  shows "\<exists>m' e'. jsTimes (m, e) k = (m', e') \<and> 2 ^ 52 \<le> m' \<and> m' \<le> 2 ^ 53
           \<and> \<bar>real m' * 2 powi e' - real m * 2 powi e * real k\<bar> \<le> 2 powi e' / 2"
proof -
  have p: "0 < m * k * pow2 e" using assms pow2_pos by simp
  have "real (m * k * pow2 e) / real (pow2 (- e)) = real m * real k * (real (pow2 e) / real (pow2 (- e)))"
    by simp
  then have r: "real (m * k * pow2 e) / real (pow2 (- e)) = real m * 2 powi e * real k"
    by (simp add: pow2_ratio)
  from toDouble_nearest [OF p pow2_pos [of "- e"]] show ?thesis
    unfolding r jsTimes_def fst_conv snd_conv .
qed

subsection \<open>The percentage\<close>

lemma percentage_29_of_200: "mathRound (jsTimes (jsDivide 29 200) 100) = 14"
  by (simp add: mathRound_def jsTimes_def jsDivide_def toDouble_def pow2_def roundEven_def
      bits.simps Let_def)

lemma percentage_1_of_200: "mathRound (jsTimes (jsDivide 1 200) 100) = 1"
  by (simp add: mathRound_def jsTimes_def jsDivide_def toDouble_def pow2_def roundEven_def
      bits.simps Let_def)

text \<open>
  C7. For any results list, getSummary(results) satisfies total = length(results),
  good + fabABad + fabBBad + bothBad = total, uniqueEntries + duplicatesRemoved =
  originalEntries, and percentageGood = round(100 * good / total) when total > 0. The code
  computes \<open>Math.round((good / total) * 100)\<close> in binary64 arithmetic: for 29 good hosts of
  200 the quotient rounds below 0.145, the product below 14.5, and the percentage is 14,
  where the rounded value of 14.5 is 15.
\<close>

theorem C7_percentage_29_of_200:
  "total (getSummary (newFabricValidator [])
            (replicate 29 (hostWith ''h'' 1 0 1 0) @ replicate 171 (hostWith ''h'' 0 0 1 0))) = 200
   \<and> good (getSummary (newFabricValidator [])
            (replicate 29 (hostWith ''h'' 1 0 1 0) @ replicate 171 (hostWith ''h'' 0 0 1 0))) = 29
   \<and> percentageGood (getSummary (newFabricValidator [])
            (replicate 29 (hostWith ''h'' 1 0 1 0) @ replicate 171 (hostWith ''h'' 0 0 1 0))) = 14
   \<and> round (100 * 29 / 200 :: real) = 15"
  using percentage_29_of_200
  by (simp add: getSummary_def hostWith_def toResult_def validateFabric_def getFinalValidation_def
      Let_def round_def)

section \<open>Grouping by host\<close>

lemma map_of_mapSet: "map_of (mapSet m k v) = (map_of m)(k \<mapsto> v)"
  by (induction m) (auto simp: fun_eq_iff)

lemma keys_mapSet:
  "map fst (mapSet m k v) = (if map_of m k = None then map fst m @ [k] else map fst m)"
  by (induction m) auto

lemma groupStep_Inl: "groupStep m e = Inl err \<longleftrightarrow> Alias e = None \<or> LoggedIn e = None"
  by (cases err) (auto simp: groupStep_def mapGet_def mapHas_def map_of_mapSet Let_def split: option.splits)

lemma groupStep_keys:
  assumes "groupStep m e = Inr m'" and "Alias e = Some a"
  shows "map fst m' = (if map_of m (extractHostName a) = None then map fst m @ [extractHostName a] else map fst m)"
  using assms
  by (auto simp: groupStep_def mapGet_def mapHas_def map_of_mapSet keys_mapSet Let_def
      split: option.splits if_splits)

lemma groupStep_fabA_yes:
  assumes "groupStep m e = Inr m'"
  shows "readCounter (\<lambda>d. loggedIn (fabA d)) m' k
         = readCounter (\<lambda>d. loggedIn (fabA d)) m k + (if rowOf k ''FAB-A'' True e then 1 else 0)"
  using assms
  by (auto simp: groupStep_def mapGet_def mapHas_def map_of_mapSet Let_def readCounter_def rowOf_def count_def
      split: option.splits if_splits)


lemma groupStep_fabA_no:
  assumes "groupStep m e = Inr m'"
  shows "readCounter (\<lambda>d. notLoggedIn (fabA d)) m' k
         = readCounter (\<lambda>d. notLoggedIn (fabA d)) m k + (if rowOf k ''FAB-A'' False e then 1 else 0)"
  using assms
  by (auto simp: groupStep_def mapGet_def mapHas_def map_of_mapSet Let_def readCounter_def rowOf_def count_def
      split: option.splits if_splits)

lemma groupStep_fabB_yes:
  assumes "groupStep m e = Inr m'"
  shows "readCounter (\<lambda>d. loggedIn (fabB d)) m' k
         = readCounter (\<lambda>d. loggedIn (fabB d)) m k + (if rowOf k ''FAB-B'' True e then 1 else 0)"
  using assms
  by (auto simp: groupStep_def mapGet_def mapHas_def map_of_mapSet Let_def readCounter_def rowOf_def count_def
      split: option.splits if_splits)

lemma groupStep_fabB_no:
  assumes "groupStep m e = Inr m'"
  shows "readCounter (\<lambda>d. notLoggedIn (fabB d)) m' k
         = readCounter (\<lambda>d. notLoggedIn (fabB d)) m k + (if rowOf k ''FAB-B'' False e then 1 else 0)"
  using assms
  by (auto simp: groupStep_def mapGet_def mapHas_def map_of_mapSet Let_def readCounter_def rowOf_def count_def
      split: option.splits if_splits)

lemma groupLoop_counter:
  assumes step: "\<And>m e m'. groupStep m e = Inr m' \<Longrightarrow>
                   readCounter f m' k = readCounter f m k + (if P e then 1 else 0)"
  shows "groupLoop m rows = Inr m' \<Longrightarrow> readCounter f m' k = readCounter f m k + length (filter P rows)"
proof (induction rows arbitrary: m)
  case Nil
  then show ?case by simp
next
  case (Cons e es)
  from Cons.prems obtain m1 where s: "groupStep m e = Inr m1" and l: "groupLoop m1 es = Inr m'"
    by (auto split: sum.splits)
  from Cons.IH [OF l] step [OF s] show ?case by simp
qed

lemma groupLoop_Inl:
  "groupLoop m rows = Inl err \<longleftrightarrow> (\<exists>e\<in>set rows. Alias e = None \<or> LoggedIn e = None)"
proof (induction rows arbitrary: m)
  case Nil
  show ?case by simp
next
  case (Cons e es)
  show ?case
  proof (cases "groupStep m e")
    case (Inl x)
    then show ?thesis using groupStep_Inl [of m e x] by (cases err; cases x) simp
  next
    case (Inr m1)
    have "\<not> (Alias e = None \<or> LoggedIn e = None)"
      using Inr groupStep_Inl [of m e TypeError] by simp
    then show ?thesis using Inr Cons.IH [of m1] by auto
  qed
qed

lemma groupLoop_keys:
  "groupLoop m rows = Inr m' \<Longrightarrow>
   set (map fst m') = set (map fst m) \<union> {h. \<exists>e\<in>set rows. map_option extractHostName (Alias e) = Some h}"
proof (induction rows arbitrary: m)
  case Nil
  then show ?case by simp
next
  case (Cons e es)
  from Cons.prems obtain m1 where s: "groupStep m e = Inr m1" and l: "groupLoop m1 es = Inr m'"
    by (auto split: sum.splits)
  from s groupStep_Inl [of m e TypeError] obtain a where a: "Alias e = Some a"
    by (cases "Alias e") auto
  have "set (map fst m1) = insert (extractHostName a) (set (map fst m))"
    using groupStep_keys [OF s a] by (auto simp: map_of_eq_None_iff)
  with Cons.IH [OF l] a show ?case by auto
qed

lemma groupLoop_distinct:
  "groupLoop m rows = Inr m' \<Longrightarrow> distinct (map fst m) \<Longrightarrow> distinct (map fst m')"
proof (induction rows arbitrary: m)
  case Nil
  then show ?case by simp
next
  case (Cons e es)
  from Cons.prems obtain m1 where s: "groupStep m e = Inr m1" and l: "groupLoop m1 es = Inr m'"
    by (auto split: sum.splits)
  from s groupStep_Inl [of m e TypeError] obtain a where a: "Alias e = Some a"
    by (cases "Alias e") auto
  have "distinct (map fst m1)"
    using groupStep_keys [OF s a] Cons.prems(2) by (auto simp: map_of_eq_None_iff)
  with Cons.IH [OF l] show ?case by simp
qed

section \<open>Sorting\<close>

lemma set_insertBy: "set (insertBy cmp x ys) = insert x (set ys)"
  by (induction ys) auto

lemma set_sortBy: "set (sortBy cmp xs) = set xs"
  by (induction xs) (simp_all add: sortBy_def set_insertBy)

lemma length_insertBy: "length (insertBy cmp x ys) = Suc (length ys)"
  by (induction ys) auto

lemma length_sortBy: "length (sortBy cmp xs) = length xs"
  by (induction xs) (simp_all add: sortBy_def length_insertBy)

lemma sorted_insertBy:
  assumes trans: "\<And>a b c. cmp a b \<le> 0 \<Longrightarrow> cmp b c \<le> 0 \<Longrightarrow> cmp a c \<le> 0"
    and total: "\<And>a b. cmp a b \<le> 0 \<or> cmp b a \<le> 0"
  shows "sorted_wrt (\<lambda>a b. cmp a b \<le> 0) ys \<Longrightarrow> sorted_wrt (\<lambda>a b. cmp a b \<le> 0) (insertBy cmp x ys)"
proof (induction ys)
  case Nil
  show ?case by simp
next
  case (Cons y ys)
  show ?case
  proof (cases "cmp x y \<le> 0")
    case True
    then have "\<forall>z\<in>set ys. cmp x z \<le> 0" using Cons.prems trans by auto
    with True Cons.prems show ?thesis by simp
  next
    case False
    then have "cmp y x \<le> 0" using total [of x y] by simp
    with False Cons show ?thesis by (auto simp: set_insertBy)
  qed
qed

lemma sorted_sortBy:
  assumes trans: "\<And>a b c. cmp a b \<le> 0 \<Longrightarrow> cmp b c \<le> 0 \<Longrightarrow> cmp a c \<le> 0"
    and total: "\<And>a b. cmp a b \<le> 0 \<or> cmp b a \<le> 0"
  shows "sorted_wrt (\<lambda>a b. cmp a b \<le> 0) (sortBy cmp xs)"
proof (induction xs)
  case Nil
  show ?case by (simp add: sortBy_def)
next
  case (Cons x xs)
  have "sortBy cmp (x # xs) = insertBy cmp x (sortBy cmp xs)" by (simp add: sortBy_def)
  with Cons sorted_insertBy [of cmp, OF trans total] show ?case by simp
qed
lemma rootCompare_le:
  "rootCompare a b \<le> 0 \<longleftrightarrow>
     toLowerCase a < toLowerCase b \<or> (toLowerCase a = toLowerCase b \<and> b \<le> a)"
  by (auto simp: rootCompare_def)

lemma rootCompare_trans:
  "rootCompare a b \<le> 0 \<Longrightarrow> rootCompare b c \<le> 0 \<Longrightarrow> rootCompare a c \<le> 0"
  unfolding rootCompare_le by auto

lemma rootCompare_total: "rootCompare a b \<le> 0 \<or> rootCompare b a \<le> 0"
  unfolding rootCompare_le by auto

lemma codeUnitCompare_le: "codeUnitCompare a b \<le> 0 \<longleftrightarrow> a \<le> b"
  by (auto simp: codeUnitCompare_def)

section \<open>Validation results\<close>

lemma validate_Inr:
  assumes "validate cmp this = Inr rs"
  obtains m where "groupLoop [] (data this) = Inr m" and "distinct (map fst m)"
    and "rs = sortBy (\<lambda>a b. cmp (host a) (host b)) (map toResult m)"
proof -
  from assms obtain m where g: "groupLoop [] (data this) = Inr m"
    and r: "rs = sortBy (\<lambda>a b. cmp (host a) (host b)) (map toResult m)"
    by (auto simp: validate_def groupByHost_def split: sum.splits)
  from groupLoop_distinct [OF g] have "distinct (map fst m)" by simp
  with g r that show thesis by blast
qed

lemma validate_counters:
  assumes v: "validate cmp this = Inr rs" and r: "r \<in> set rs"
  shows "fabA_LoggedInYes r = length (filter (rowOf (host r) ''FAB-A'' True) (data this))"
    and "fabA_LoggedInNo r = length (filter (rowOf (host r) ''FAB-A'' False) (data this))"
    and "fabB_LoggedInYes r = length (filter (rowOf (host r) ''FAB-B'' True) (data this))"
    and "fabB_LoggedInNo r = length (filter (rowOf (host r) ''FAB-B'' False) (data this))"
proof -
  from v obtain m where g: "groupLoop [] (data this) = Inr m" and d: "distinct (map fst m)"
    and rs: "rs = sortBy (\<lambda>a b. cmp (host a) (host b)) (map toResult m)"
    by (rule validate_Inr)
  from r rs obtain k hd where kd: "(k, hd) \<in> set m" and tr: "r = toResult (k, hd)"
    by (auto simp: set_sortBy)
  from kd d have mo: "map_of m k = Some hd" by simp
  have h: "host r = k" using tr by (simp add: toResult_def Let_def)
  have rc: "\<And>f. readCounter f m k = f hd" using mo by (simp add: readCounter_def)
  have z: "\<And>f. readCounter f [] k = 0" by (simp add: readCounter_def)
  show "fabA_LoggedInYes r = length (filter (rowOf (host r) ''FAB-A'' True) (data this))"
    using groupLoop_counter [where k = k, OF groupStep_fabA_yes g] rc z h tr
    by (simp add: toResult_def Let_def)
  show "fabA_LoggedInNo r = length (filter (rowOf (host r) ''FAB-A'' False) (data this))"
    using groupLoop_counter [where k = k, OF groupStep_fabA_no g] rc z h tr
    by (simp add: toResult_def Let_def)
  show "fabB_LoggedInYes r = length (filter (rowOf (host r) ''FAB-B'' True) (data this))"
    using groupLoop_counter [where k = k, OF groupStep_fabB_yes g] rc z h tr
    by (simp add: toResult_def Let_def)
  show "fabB_LoggedInNo r = length (filter (rowOf (host r) ''FAB-B'' False) (data this))"
    using groupLoop_counter [where k = k, OF groupStep_fabB_no g] rc z h tr
    by (simp add: toResult_def Let_def)
qed

lemma validate_hosts:
  assumes "validate cmp this = Inr rs"
  shows "host ` set rs = {h. \<exists>e\<in>set (data this). map_option extractHostName (Alias e) = Some h}"
proof -
  from assms obtain m where g: "groupLoop [] (data this) = Inr m"
    and rs: "rs = sortBy (\<lambda>a b. cmp (host a) (host b)) (map toResult m)"
    by (rule validate_Inr)
  have "host ` set rs = fst ` set m"
    unfolding rs set_sortBy by (force simp: toResult_def Let_def)
  with groupLoop_keys [OF g] show ?thesis by simp
qed

lemma rowOf_pointwise:
  "fa \<noteq> fb \<Longrightarrow>
   (if rowOf h fa True e then 1 else 0) + (if rowOf h fa False e then 1 else 0)
   + (if rowOf h fb True e then 1 else 0) + (if rowOf h fb False e then 1 else (0::nat))
   = (if map_option extractHostName (Alias e) = Some h \<and> (Fabric e = Some fa \<or> Fabric e = Some fb)
      then 1 else 0)"
  by (auto simp: rowOf_def)

lemma rowOf_partition:
  assumes "fa \<noteq> fb"
  shows "length (filter (rowOf h fa True) xs) + length (filter (rowOf h fa False) xs)
         + length (filter (rowOf h fb True) xs) + length (filter (rowOf h fb False) xs)
         = length (filter (\<lambda>e. map_option extractHostName (Alias e) = Some h
                                \<and> (Fabric e = Some fa \<or> Fabric e = Some fb)) xs)"
proof (induction xs)
  case Nil
  show ?case by simp
next
  case (Cons e es)
  from rowOf_pointwise [OF assms, of h e] Cons show ?case
    by (simp split: if_splits)
qed

subsection \<open>Evaluation of the sample tables\<close>

lemma sample_dedup:
  "removeDuplicates sampleRows =
     [row ''FAB-A'' ''srv1_1s'' ''w1'' ''Yes'',
      row ''FAB-B'' ''srv1_2s'' ''w2'' ''no'',
      row ''FAB-X'' ''old_1'' ''w3'' ''yes'']"
  by (simp add: sampleRows_def removeDuplicates_def dedupStep_def dedupKey_def templ_def row_def)

lemma lower_samples:
  "toLowerCase ''Yes'' = ''yes''" "toLowerCase ''YES'' = ''yes''" "toLowerCase ''yes'' = ''yes''"
  "toLowerCase ''no'' = ''no''"
  by (simp_all add: toLowerCase_def lowerChar_def char_of_def bit_Suc_0_iff)

lemmas run_validate =
  newFabricValidator_def validate_def groupByHost_def groupStep_def mapHas_def mapGet_def
  row_def lower_samples count_def toResult_def
  validateFabric_def getFinalValidation_def sortBy_def Let_def

lemma sample_validate:
  "validate codeUnitCompare (newFabricValidator sampleRows) = Inr sampleResults"
  by (simp add: sample_dedup run_validate codeUnitCompare_def sampleResults_def)

lemma sample_data: "data (newFabricValidator sampleRows) = removeDuplicates sampleRows"
  by (simp add: newFabricValidator_def Let_def)

lemma case_dedup: "removeDuplicates caseRows = caseRows"
  by (simp add: caseRows_def removeDuplicates_def dedupStep_def dedupKey_def templ_def row_def)

lemma case_compare: "rootCompare ''B'' ''a'' = 1" "rootCompare ''a'' ''B'' = - 1"
  by (simp_all add: rootCompare_def toLowerCase_def lowerChar_def char_of_def bit_Suc_0_iff)

lemma case_validate:
  "validate rootCompare (newFabricValidator caseRows) = Inr caseResults"
proof -
  have d: "data (newFabricValidator caseRows) = caseRows"
    by (simp add: newFabricValidator_def case_dedup Let_def)
  show ?thesis
    unfolding validate_def groupByHost_def d
    by (simp add: caseRows_def run_validate case_compare caseResults_def)
qed

subsection \<open>Counters\<close>

text \<open>
  C3. For every host result produced by validate(), fabA_LoggedInYes equals the number of
  deduplicated rows whose fabric is 'FAB-A', whose alias derives that host identity, and
  whose Logged In field lowered equals "yes"; fabA_LoggedInNo counts the remaining 'FAB-A'
  rows of that host; the fabB counters count 'FAB-B' rows alike; and a row with any other
  fabric value increments no counter, so the four counters add up to the host's rows on the
  two fabrics.
\<close>

theorem C3_counters:
  assumes "validate localeCompare (newFabricValidator rows) = Inr results" and "r \<in> set results"
  shows "fabA_LoggedInYes r = length (filter (rowOf (host r) ''FAB-A'' True) (removeDuplicates rows))
       \<and> fabA_LoggedInNo r = length (filter (rowOf (host r) ''FAB-A'' False) (removeDuplicates rows))
       \<and> fabB_LoggedInYes r = length (filter (rowOf (host r) ''FAB-B'' True) (removeDuplicates rows))
       \<and> fabB_LoggedInNo r = length (filter (rowOf (host r) ''FAB-B'' False) (removeDuplicates rows))
       \<and> fabA_LoggedInYes r + fabA_LoggedInNo r + fabB_LoggedInYes r + fabB_LoggedInNo r
           = length (filter (\<lambda>e. map_option extractHostName (Alias e) = Some (host r)
                                  \<and> (Fabric e = Some ''FAB-A'' \<or> Fabric e = Some ''FAB-B''))
                       (removeDuplicates rows))"
proof -
  have d: "data (newFabricValidator rows) = removeDuplicates rows"
    by (simp add: newFabricValidator_def Let_def)
  note c = validate_counters [OF assms, unfolded d]
  have ne: "''FAB-A'' \<noteq> ''FAB-B''" by simp
  from c rowOf_partition [OF ne] show ?thesis by simp
qed

theorem C3_counters_witness:
  "validate codeUnitCompare (newFabricValidator sampleRows) = Inr sampleResults
   \<and> fabA_LoggedInYes (sampleResults ! 1) = 1 \<and> fabA_LoggedInNo (sampleResults ! 1) = 0
   \<and> fabB_LoggedInYes (sampleResults ! 1) = 0 \<and> fabB_LoggedInNo (sampleResults ! 1) = 1
   \<and> length (filter (rowOf ''srv1'' ''FAB-A'' True) (removeDuplicates sampleRows)) = 1
   \<and> length (filter (rowOf ''srv1'' ''FAB-B'' False) (removeDuplicates sampleRows)) = 1"
proof -
  have m: "sampleResults ! 1 \<in> set sampleResults" by (simp add: sampleResults_def)
  have h: "host (sampleResults ! 1) = ''srv1''" by (simp add: sampleResults_def)
  have v: "fabA_LoggedInYes (sampleResults ! 1) = 1" "fabA_LoggedInNo (sampleResults ! 1) = 0"
    "fabB_LoggedInYes (sampleResults ! 1) = 0" "fabB_LoggedInNo (sampleResults ! 1) = 1"
    by (simp_all add: sampleResults_def)
  from C3_counters [OF sample_validate m] sample_validate show ?thesis
    unfolding h v by simp
qed

subsection \<open>Order of the results\<close>

text \<open>
  C6, as the code has it. The result sequence returned by validate() is sorted by the host
  field in ascending order under \<open>localeCompare\<close>, the comparison of the host's locale,
  whenever that comparison is transitive and total: no result is followed by one whose
  host compares smaller.
\<close>

theorem C6_sorted_by_localeCompare:
  assumes "\<And>a b c. localeCompare a b \<le> 0 \<Longrightarrow> localeCompare b c \<le> 0 \<Longrightarrow> localeCompare a c \<le> 0"
    and "\<And>a b. localeCompare a b \<le> 0 \<or> localeCompare b a \<le> 0"
    and "validate localeCompare this = Inr results"
  shows "sorted_wrt (\<lambda>x y. localeCompare (host x) (host y) \<le> 0) results"
proof -
  from assms(3) obtain m
    where "results = sortBy (\<lambda>x y. localeCompare (host x) (host y)) (map toResult m)"
    by (rule validate_Inr)
  moreover have "sorted_wrt (\<lambda>x y. localeCompare (host x) (host y) \<le> 0)
                   (sortBy (\<lambda>x y. localeCompare (host x) (host y)) (map toResult m))"
    by (rule sorted_sortBy) (use assms(1,2) in blast)+
  ultimately show ?thesis by simp
qed

theorem C6_sorted_by_localeCompare_witness:
  "validate rootCompare (newFabricValidator caseRows) = Inr caseResults
   \<and> sorted_wrt (\<lambda>x y. rootCompare (host x) (host y) \<le> 0) caseResults"
  using C6_sorted_by_localeCompare [of rootCompare, OF rootCompare_trans rootCompare_total case_validate]
    case_validate
  by simp

text \<open>
  C6, as the spec has it, fails: under the root collation the host \<open>a\<close> precedes the host
  \<open>B\<close>, which is not the ascending order of ordinary lexicographic comparison, where the
  capital letters come before the small ones.
\<close>

theorem C6_counterexample:
  "validate rootCompare (newFabricValidator caseRows) = Inr caseResults
   \<and> map host caseResults = [''a'', ''B'']
   \<and> \<not> sorted (map host caseResults)"
  using case_validate by (simp add: caseResults_def)

text \<open>Where the comparison is that of the code units, the hosts ascend lexicographically.\<close>

lemma validate_lexicographic:
  assumes "validate codeUnitCompare this = Inr results"
  shows "sorted (map host results)"
proof -
  from assms obtain m
    where r: "results = sortBy (\<lambda>x y. codeUnitCompare (host x) (host y)) (map toResult m)"
    by (rule validate_Inr)
  have "sorted_wrt (\<lambda>x y. codeUnitCompare (host x) (host y) \<le> 0) results"
    unfolding r by (rule sorted_sortBy) (auto simp: codeUnitCompare_le)
  then show ?thesis by (simp add: sorted_map codeUnitCompare_le)
qed

subsection \<open>Failures\<close>

lemma validate_Inl:
  "validate cmp this = Inl err \<longleftrightarrow> (\<exists>e\<in>set (data this). Alias e = None \<or> LoggedIn e = None)"
  using groupLoop_Inl [of "[]" "data this" err]
  by (auto simp: validate_def groupByHost_def split: sum.splits)

lemma validate_returns:
  assumes "\<forall>e\<in>set rows. Alias e \<noteq> None \<and> LoggedIn e \<noteq> None"
  shows "\<exists>results. validate cmp (newFabricValidator rows) = Inr results"
proof -
  let ?v = "newFabricValidator rows"
  have d: "data ?v = removeDuplicates rows" by (simp add: newFabricValidator_def Let_def)
  have sub: "set (removeDuplicates rows) \<subseteq> set rows"
    by (simp add: removeDuplicates_keepNew keepNew_set)
  have "\<not> (\<exists>e\<in>set (data ?v). Alias e = None \<or> LoggedIn e = None)"
    using assms sub d by auto
  then have "validate cmp ?v \<noteq> Inl TypeError"
    using validate_Inl [of cmp ?v TypeError] by simp
  then show ?thesis
    by (cases "validate cmp ?v") (auto intro: error.exhaust)
qed

subsection \<open>Hosts seen through unrecognised fabrics only\<close>

lemma groupStep_wwns:
  assumes "Alias e = Some a" and "LoggedIn e = Some l"
  shows "\<exists>m' d'. groupStep m e = Inr m' \<and> map_of m' (extractHostName a) = Some d'
           \<and> wwns d' =
               (let old = (case map_of m (extractHostName a) of None \<Rightarrow> [] | Some d \<Rightarrow> wwns d)
                in if \<exists>w\<in>set old. wwn w = MemberWWN e \<and> fabric w = Fabric e then old
                   else old @ [\<lparr>wwn = MemberWWN e, isLoggedIn = (toLowerCase l = ''yes''),
                                 fabric = Fabric e\<rparr>])"
  using assms
  by (auto simp: groupStep_def mapGet_def mapHas_def map_of_mapSet Let_def find_None_iff
      split: option.splits)

lemma groupStep_wwns_has:
  assumes s: "groupStep m e = Inr m'" and a: "Alias e = Some a"
  shows "\<exists>d'. map_of m' (extractHostName a) = Some d'
           \<and> (\<exists>w\<in>set (wwns d'). wwn w = MemberWWN e \<and> fabric w = Fabric e)"
proof -
  from s groupStep_Inl [of m e TypeError] obtain l where l: "LoggedIn e = Some l"
    by (cases "LoggedIn e") auto
  from groupStep_wwns [OF a l, of m] s obtain d'
    where d: "map_of m' (extractHostName a) = Some d'"
      and w: "wwns d' =
               (let old = (case map_of m (extractHostName a) of None \<Rightarrow> [] | Some d \<Rightarrow> wwns d)
                in if \<exists>w\<in>set old. wwn w = MemberWWN e \<and> fabric w = Fabric e then old
                   else old @ [\<lparr>wwn = MemberWWN e, isLoggedIn = (toLowerCase l = ''yes''),
                                 fabric = Fabric e\<rparr>])"
    by auto
  have "\<exists>w\<in>set (wwns d'). wwn w = MemberWWN e \<and> fabric w = Fabric e"
    unfolding w Let_def by (auto split: if_splits)
  with d show ?thesis by blast
qed

lemma groupStep_wwns_keep:
  assumes "groupStep m e = Inr m'" and "map_of m k = Some d" and "w \<in> set (wwns d)"
  shows "\<exists>d'. map_of m' k = Some d' \<and> w \<in> set (wwns d')"
  using assms
  by (auto simp: groupStep_def mapGet_def mapHas_def map_of_mapSet Let_def
      split: option.splits if_splits)

lemma groupLoop_wwns_keep:
  "groupLoop m rows = Inr m' \<Longrightarrow> map_of m k = Some d \<Longrightarrow> w \<in> set (wwns d)
   \<Longrightarrow> \<exists>d'. map_of m' k = Some d' \<and> w \<in> set (wwns d')"
proof (induction rows arbitrary: m d)
  case Nil
  then show ?case by simp
next
  case (Cons e es)
  from Cons.prems(1) obtain m1 where s: "groupStep m e = Inr m1" and l: "groupLoop m1 es = Inr m'"
    by (auto split: sum.splits)
  from groupStep_wwns_keep [OF s Cons.prems(2,3)] obtain d1
    where "map_of m1 k = Some d1" "w \<in> set (wwns d1)" by blast
  with Cons.IH [OF l] show ?case by blast
qed

lemma groupLoop_wwns:
  "groupLoop m rows = Inr m' \<Longrightarrow> e \<in> set rows \<Longrightarrow> Alias e = Some a
   \<Longrightarrow> \<exists>d'. map_of m' (extractHostName a) = Some d'
         \<and> (\<exists>w\<in>set (wwns d'). wwn w = MemberWWN e \<and> fabric w = Fabric e)"
proof (induction rows arbitrary: m)
  case Nil
  then show ?case by simp
next
  case (Cons x xs)
  from Cons.prems(1) obtain m1 where s: "groupStep m x = Inr m1" and l: "groupLoop m1 xs = Inr m'"
    by (auto split: sum.splits)
  show ?case
  proof (cases "e = x")
    case True
    from groupStep_wwns_has [OF s] True Cons.prems(3) obtain d1 w
      where d1: "map_of m1 (extractHostName a) = Some d1" and w: "w \<in> set (wwns d1)"
        and ww: "wwn w = MemberWWN e \<and> fabric w = Fabric e"
      by blast
    from groupLoop_wwns_keep [OF l d1 w] ww show ?thesis by blast
  next
    case False
    with Cons.prems(2) have "e \<in> set xs" by simp
    from Cons.IH [OF l this Cons.prems(3)] show ?thesis .
  qed
qed

lemma validate_wwns:
  assumes v: "validate cmp this = Inr rs" and e: "e \<in> set (data this)" and a: "Alias e = Some a"
  shows "\<exists>r\<in>set rs. host r = extractHostName a
           \<and> (\<exists>w\<in>set (result_wwns r). wwn w = MemberWWN e \<and> fabric w = Fabric e)"
proof -
  from v obtain m where g: "groupLoop [] (data this) = Inr m"
    and rs: "rs = sortBy (\<lambda>a b. cmp (host a) (host b)) (map toResult m)"
    by (rule validate_Inr)
  from groupLoop_wwns [OF g e a] obtain d' w
    where d: "map_of m (extractHostName a) = Some d'" and w: "w \<in> set (wwns d')"
      and ww: "wwn w = MemberWWN e \<and> fabric w = Fabric e"
    by blast
  from d have "(extractHostName a, d') \<in> set m" by (rule map_of_SomeD)
  then have "toResult (extractHostName a, d') \<in> set rs"
    unfolding rs set_sortBy by simp
  moreover have "host (toResult (extractHostName a, d')) = extractHostName a"
    "result_wwns (toResult (extractHostName a, d')) = wwns d'"
    by (simp_all add: toResult_def Let_def)
  ultimately show ?thesis using w ww by metis
qed

text \<open>
  C10, as the code has it. Every row that carries \<open>Alias\<close> and \<open>Logged In\<close> as text, also
  one whose fabric is neither 'FAB-A' nor 'FAB-B', creates or updates the host aggregate of
  its derived host identity and appends a (wwn, isLoggedIn, fabric) entry whenever that
  (wwn, fabric) pair is new for the host. For every row sequence whose rows all carry the
  two fields, validate() returns; every deduplicated row's host identity is the host of a
  result that lists the row's (wwn, fabric) pair; and a host observed only through rows of
  unrecognised fabrics is in the output with all four counters zero and finalValidation
  'Both FABs Are BAD'.
\<close>

theorem C10_unrecognized_fabric:
  "(Alias e = Some a \<and> LoggedIn e = Some l \<longrightarrow>
      (\<exists>m' d'. groupStep m e = Inr m' \<and> map_of m' (extractHostName a) = Some d'
         \<and> wwns d' =
             (let old = (case map_of m (extractHostName a) of None \<Rightarrow> [] | Some d \<Rightarrow> wwns d)
              in if \<exists>w\<in>set old. wwn w = MemberWWN e \<and> fabric w = Fabric e then old
                 else old @ [\<lparr>wwn = MemberWWN e, isLoggedIn = (toLowerCase l = ''yes''),
                               fabric = Fabric e\<rparr>])))
   \<and> ((\<forall>e\<in>set rows. Alias e \<noteq> None \<and> LoggedIn e \<noteq> None) \<longrightarrow>
        (\<exists>results. validate localeCompare (newFabricValidator rows) = Inr results
           \<and> (\<forall>e\<in>set (removeDuplicates rows). \<exists>r\<in>set results.
                 map_option extractHostName (Alias e) = Some (host r)
                 \<and> (\<exists>w\<in>set (result_wwns r). wwn w = MemberWWN e \<and> fabric w = Fabric e))
           \<and> (\<forall>h. (\<exists>e\<in>set (removeDuplicates rows). map_option extractHostName (Alias e) = Some h)
                  \<and> (\<forall>e\<in>set (removeDuplicates rows). map_option extractHostName (Alias e) = Some h
                        \<longrightarrow> Fabric e \<noteq> Some ''FAB-A'' \<and> Fabric e \<noteq> Some ''FAB-B'')
                 \<longrightarrow> (\<exists>r\<in>set results. host r = h
                        \<and> fabA_LoggedInYes r = 0 \<and> fabA_LoggedInNo r = 0
                        \<and> fabB_LoggedInYes r = 0 \<and> fabB_LoggedInNo r = 0
                        \<and> validationA r = Error \<and> validationB r = Error
                        \<and> finalValidation r = Both_FABs_Are_BAD))))"
proof (intro conjI impI)
  assume "Alias e = Some a \<and> LoggedIn e = Some l"
  then show "\<exists>m' d'. groupStep m e = Inr m' \<and> map_of m' (extractHostName a) = Some d'
         \<and> wwns d' =
             (let old = (case map_of m (extractHostName a) of None \<Rightarrow> [] | Some d \<Rightarrow> wwns d)
              in if \<exists>w\<in>set old. wwn w = MemberWWN e \<and> fabric w = Fabric e then old
                 else old @ [\<lparr>wwn = MemberWWN e, isLoggedIn = (toLowerCase l = ''yes''),
                               fabric = Fabric e\<rparr>])"
    using groupStep_wwns [of e a l m] by simp
next
  assume ok: "\<forall>e\<in>set rows. Alias e \<noteq> None \<and> LoggedIn e \<noteq> None"
  let ?v = "newFabricValidator rows"
  have d: "data ?v = removeDuplicates rows" by (simp add: newFabricValidator_def Let_def)
  have sub: "set (removeDuplicates rows) \<subseteq> set rows"
    by (simp add: removeDuplicates_keepNew keepNew_set)
  from validate_returns [OF ok] obtain results
    where v: "validate localeCompare ?v = Inr results" by blast
  have absorbed: "\<forall>e\<in>set (removeDuplicates rows). \<exists>r\<in>set results.
                 map_option extractHostName (Alias e) = Some (host r)
                 \<and> (\<exists>w\<in>set (result_wwns r). wwn w = MemberWWN e \<and> fabric w = Fabric e)"
  proof
    fix x assume x: "x \<in> set (removeDuplicates rows)"
    with sub have "x \<in> set rows" by blast
    with ok have "Alias x \<noteq> None" by blast
    then obtain b where b: "Alias x = Some b" by blast
    from x d have "x \<in> set (data ?v)" by simp
    from validate_wwns [OF v this b] obtain r
      where r: "r \<in> set results" "host r = extractHostName b"
        "\<exists>w\<in>set (result_wwns r). wwn w = MemberWWN x \<and> fabric w = Fabric x"
      by blast
    then have "map_option extractHostName (Alias x) = Some (host r)" by (simp add: b)
    with r show "\<exists>r\<in>set results. map_option extractHostName (Alias x) = Some (host r)
            \<and> (\<exists>w\<in>set (result_wwns r). wwn w = MemberWWN x \<and> fabric w = Fabric x)"
      by blast
  qed
  have zero: "\<forall>h. (\<exists>e\<in>set (removeDuplicates rows). map_option extractHostName (Alias e) = Some h)
                  \<and> (\<forall>e\<in>set (removeDuplicates rows). map_option extractHostName (Alias e) = Some h
                        \<longrightarrow> Fabric e \<noteq> Some ''FAB-A'' \<and> Fabric e \<noteq> Some ''FAB-B'')
                 \<longrightarrow> (\<exists>r\<in>set results. host r = h
                        \<and> fabA_LoggedInYes r = 0 \<and> fabA_LoggedInNo r = 0
                        \<and> fabB_LoggedInYes r = 0 \<and> fabB_LoggedInNo r = 0
                        \<and> validationA r = Error \<and> validationB r = Error
                        \<and> finalValidation r = Both_FABs_Are_BAD)"
  proof (intro allI impI)
    fix h
    assume a: "(\<exists>e\<in>set (removeDuplicates rows). map_option extractHostName (Alias e) = Some h)
                  \<and> (\<forall>e\<in>set (removeDuplicates rows). map_option extractHostName (Alias e) = Some h
                        \<longrightarrow> Fabric e \<noteq> Some ''FAB-A'' \<and> Fabric e \<noteq> Some ''FAB-B'')"
    from a validate_hosts [OF v] d have "h \<in> host ` set results" by auto
    then obtain r where r: "r \<in> set results" and hr: "host r = h" by auto
    have none: "filter (rowOf h fab yes) (removeDuplicates rows) = []"
      if "fab = ''FAB-A'' \<or> fab = ''FAB-B''" for fab yes
      using a that by (auto simp: filter_empty_conv rowOf_def)
    note c = validate_counters [OF v r, unfolded d hr]
    have z: "fabA_LoggedInYes r = 0" "fabA_LoggedInNo r = 0" "fabB_LoggedInYes r = 0"
      "fabB_LoggedInNo r = 0"
      using c by (simp_all add: none)
    from v obtain mm
      where rs: "results = sortBy (\<lambda>a b. localeCompare (host a) (host b)) (map toResult mm)"
      by (rule validate_Inr)
    from r rs obtain kv where t: "r = toResult kv" by (auto simp: set_sortBy)
    have va: "validationA r = validateFabric (fabA_LoggedInYes r) (fabA_LoggedInNo r)"
      and vb: "validationB r = validateFabric (fabB_LoggedInYes r) (fabB_LoggedInNo r)"
      and fv: "finalValidation r = getFinalValidation (validationA r) (validationB r)"
      unfolding t by (simp_all add: toResult_def Let_def)
    have e2: "validationA r = Error" "validationB r = Error"
      using va vb z by (simp_all add: validateFabric_def)
    with fv have "finalValidation r = Both_FABs_Are_BAD" by (simp add: getFinalValidation_def)
    with r hr z e2
    show "\<exists>r\<in>set results. host r = h
             \<and> fabA_LoggedInYes r = 0 \<and> fabA_LoggedInNo r = 0
             \<and> fabB_LoggedInYes r = 0 \<and> fabB_LoggedInNo r = 0
             \<and> validationA r = Error \<and> validationB r = Error
             \<and> finalValidation r = Both_FABs_Are_BAD" by blast
  qed
  from v absorbed zero
  show "\<exists>results. validate localeCompare ?v = Inr results
           \<and> (\<forall>e\<in>set (removeDuplicates rows). \<exists>r\<in>set results.
                 map_option extractHostName (Alias e) = Some (host r)
                 \<and> (\<exists>w\<in>set (result_wwns r). wwn w = MemberWWN e \<and> fabric w = Fabric e))
           \<and> (\<forall>h. (\<exists>e\<in>set (removeDuplicates rows). map_option extractHostName (Alias e) = Some h)
                  \<and> (\<forall>e\<in>set (removeDuplicates rows). map_option extractHostName (Alias e) = Some h
                        \<longrightarrow> Fabric e \<noteq> Some ''FAB-A'' \<and> Fabric e \<noteq> Some ''FAB-B'')
                 \<longrightarrow> (\<exists>r\<in>set results. host r = h
                        \<and> fabA_LoggedInYes r = 0 \<and> fabA_LoggedInNo r = 0
                        \<and> fabB_LoggedInYes r = 0 \<and> fabB_LoggedInNo r = 0
                        \<and> validationA r = Error \<and> validationB r = Error
                        \<and> finalValidation r = Both_FABs_Are_BAD))"
    by blast
qed

theorem C10_unrecognized_fabric_witness:
  "(\<exists>m' d'. groupStep [] (row ''FAB-X'' ''old_1'' ''w3'' ''yes'') = Inr m'
       \<and> map_of m' ''old'' = Some d'
       \<and> wwns d' = [\<lparr>wwn = Some ''w3'', isLoggedIn = True, fabric = Some ''FAB-X''\<rparr>])
   \<and> validate codeUnitCompare (newFabricValidator sampleRows) = Inr sampleResults
   \<and> (\<exists>r\<in>set sampleResults. host r = ''old''
         \<and> fabA_LoggedInYes r = 0 \<and> fabA_LoggedInNo r = 0
         \<and> fabB_LoggedInYes r = 0 \<and> fabB_LoggedInNo r = 0
         \<and> validationA r = Error \<and> validationB r = Error
         \<and> finalValidation r = Both_FABs_Are_BAD)"
proof -
  let ?e = "row ''FAB-X'' ''old_1'' ''w3'' ''yes''"
  have f: "Alias ?e = Some ''old_1'' \<and> LoggedIn ?e = Some ''yes''" "MemberWWN ?e = Some ''w3''"
    "Fabric ?e = Some ''FAB-X''"
    by (simp_all add: row_def)
  have x: "extractHostName ''old_1'' = ''old''" by simp
  have ok: "\<forall>e\<in>set sampleRows. Alias e \<noteq> None \<and> LoggedIn e \<noteq> None"
    by (simp add: sampleRows_def row_def)
  have ex: "\<exists>e\<in>set (removeDuplicates sampleRows). map_option extractHostName (Alias e) = Some ''old''"
    by (simp add: sample_dedup row_def)
  have al: "\<forall>e\<in>set (removeDuplicates sampleRows). map_option extractHostName (Alias e) = Some ''old''
             \<longrightarrow> Fabric e \<noteq> Some ''FAB-A'' \<and> Fabric e \<noteq> Some ''FAB-B''"
    by (simp add: sample_dedup row_def)
  note t = C10_unrecognized_fabric [of ?e "''old_1''" "''yes''" "[]" sampleRows codeUnitCompare]
  from t f x have step: "\<exists>m' d'. groupStep [] ?e = Inr m' \<and> map_of m' ''old'' = Some d'
       \<and> wwns d' = [\<lparr>wwn = Some ''w3'', isLoggedIn = True, fabric = Some ''FAB-X''\<rparr>]"
    by (simp add: lower_samples)
  from t ok sample_validate ex al
  have "\<exists>r\<in>set sampleResults. host r = ''old''
         \<and> fabA_LoggedInYes r = 0 \<and> fabA_LoggedInNo r = 0
         \<and> fabB_LoggedInYes r = 0 \<and> fabB_LoggedInNo r = 0
         \<and> validationA r = Error \<and> validationB r = Error
         \<and> finalValidation r = Both_FABs_Are_BAD"
    by auto
  with step sample_validate show ?thesis by blast
qed

text \<open>
  C10, as it is stated for every row, fails: a row of an unrecognised fabric without
  \<open>Logged In\<close> raises before its host aggregate is created, and validate() returns no
  output for its host.
\<close>

theorem C10_counterexample:
  "removeDuplicates [(row ''FAB-X'' ''old_1'' ''w3'' ''yes'')\<lparr>LoggedIn := None\<rparr>]
     = [(row ''FAB-X'' ''old_1'' ''w3'' ''yes'')\<lparr>LoggedIn := None\<rparr>]
   \<and> groupStep [] ((row ''FAB-X'' ''old_1'' ''w3'' ''yes'')\<lparr>LoggedIn := None\<rparr>) = Inl TypeError
   \<and> validate codeUnitCompare
       (newFabricValidator [(row ''FAB-X'' ''old_1'' ''w3'' ''yes'')\<lparr>LoggedIn := None\<rparr>])
     = Inl TypeError"
  by (simp add: removeDuplicates_def dedupStep_def dedupKey_def templ_def run_validate)

subsection \<open>Rows that are absorbed, rows that raise\<close>

text \<open>
  C8, as the code has it. Over row sequences whose fields are text or absent: construction
  and getSummary have no failure; when every row carries \<open>Alias\<close> and \<open>Logged In\<close> as text,
  validate() returns, every input row has its key among the deduplicated rows, and every
  deduplicated row is absorbed into the output, its host identity being the host of a
  result that lists its (wwn, fabric) pair; when a deduplicated row lacks \<open>Alias\<close> or
  \<open>Logged In\<close>, validate() raises a \<open>TypeError\<close>. The key joins the three fields by \<open>|\<close>:
  a field that holds the empty text enters it as the empty string, and an absent field
  enters it as the text \<open>undefined\<close>.
\<close>

theorem C8_returns_on_text_fields:
  "((\<forall>e\<in>set rows. Alias e \<noteq> None \<and> LoggedIn e \<noteq> None) \<longrightarrow>
        (\<exists>results. validate localeCompare (newFabricValidator rows) = Inr results
           \<and> (\<forall>e\<in>set rows. \<exists>e'\<in>set (removeDuplicates rows). dedupKey e' = dedupKey e)
           \<and> (\<forall>e\<in>set (removeDuplicates rows). \<exists>r\<in>set results.
                 map_option extractHostName (Alias e) = Some (host r)
                 \<and> (\<exists>w\<in>set (result_wwns r). wwn w = MemberWWN e \<and> fabric w = Fabric e))))
   \<and> ((\<exists>e\<in>set (removeDuplicates rows). Alias e = None \<or> LoggedIn e = None) \<longrightarrow>
        validate localeCompare (newFabricValidator rows) = Inl TypeError)
   \<and> dedupKey e =
       (case Fabric e of None \<Rightarrow> ''undefined'' | Some s \<Rightarrow> s) @ ''|''
       @ (case Alias e of None \<Rightarrow> ''undefined'' | Some s \<Rightarrow> s) @ ''|''
       @ (case MemberWWN e of None \<Rightarrow> ''undefined'' | Some s \<Rightarrow> s)"
proof (intro conjI impI)
  let ?v = "newFabricValidator rows"
  have d: "data ?v = removeDuplicates rows" by (simp add: newFabricValidator_def Let_def)
  {
    assume ok: "\<forall>e\<in>set rows. Alias e \<noteq> None \<and> LoggedIn e \<noteq> None"
    have sub: "set (removeDuplicates rows) \<subseteq> set rows"
      by (simp add: removeDuplicates_keepNew keepNew_set)
    from validate_returns [OF ok] obtain results
      where v: "validate localeCompare ?v = Inr results" by blast
    have keys: "\<forall>e\<in>set rows. \<exists>e'\<in>set (removeDuplicates rows). dedupKey e' = dedupKey e"
    proof
      fix x assume "x \<in> set rows"
      then have "dedupKey x \<in> dedupKey ` set (keepNew {} rows)" by (simp add: keepNew_keys)
      then show "\<exists>e'\<in>set (removeDuplicates rows). dedupKey e' = dedupKey x"
        by (auto simp: removeDuplicates_keepNew)
    qed
    have absorbed: "\<forall>e\<in>set (removeDuplicates rows). \<exists>r\<in>set results.
                   map_option extractHostName (Alias e) = Some (host r)
                   \<and> (\<exists>w\<in>set (result_wwns r). wwn w = MemberWWN e \<and> fabric w = Fabric e)"
    proof
      fix x assume x: "x \<in> set (removeDuplicates rows)"
      with sub have "x \<in> set rows" by blast
      with ok have "Alias x \<noteq> None" by blast
      then obtain b where b: "Alias x = Some b" by blast
      from x d have "x \<in> set (data ?v)" by simp
      from validate_wwns [OF v this b] obtain r
        where r: "r \<in> set results" "host r = extractHostName b"
          "\<exists>w\<in>set (result_wwns r). wwn w = MemberWWN x \<and> fabric w = Fabric x"
        by blast
      then have "map_option extractHostName (Alias x) = Some (host r)" by (simp add: b)
      with r show "\<exists>r\<in>set results. map_option extractHostName (Alias x) = Some (host r)
              \<and> (\<exists>w\<in>set (result_wwns r). wwn w = MemberWWN x \<and> fabric w = Fabric x)"
        by blast
    qed
    from v keys absorbed
    show "\<exists>results. validate localeCompare ?v = Inr results
           \<and> (\<forall>e\<in>set rows. \<exists>e'\<in>set (removeDuplicates rows). dedupKey e' = dedupKey e)
           \<and> (\<forall>e\<in>set (removeDuplicates rows). \<exists>r\<in>set results.
                 map_option extractHostName (Alias e) = Some (host r)
                 \<and> (\<exists>w\<in>set (result_wwns r). wwn w = MemberWWN e \<and> fabric w = Fabric e))"
      by blast
  }
  {
    assume "\<exists>e\<in>set (removeDuplicates rows). Alias e = None \<or> LoggedIn e = None"
    then show "validate localeCompare ?v = Inl TypeError"
      using validate_Inl [of localeCompare ?v TypeError] d by simp
  }
  show "dedupKey e =
       (case Fabric e of None \<Rightarrow> ''undefined'' | Some s \<Rightarrow> s) @ ''|''
       @ (case Alias e of None \<Rightarrow> ''undefined'' | Some s \<Rightarrow> s) @ ''|''
       @ (case MemberWWN e of None \<Rightarrow> ''undefined'' | Some s \<Rightarrow> s)"
    by (simp add: dedupKey_def templ_def)
qed

theorem C8_returns_on_text_fields_witness:
  "(\<exists>results. validate codeUnitCompare (newFabricValidator sampleRows) = Inr results
         \<and> (\<forall>e\<in>set sampleRows. \<exists>e'\<in>set (removeDuplicates sampleRows). dedupKey e' = dedupKey e)
         \<and> (\<forall>e\<in>set (removeDuplicates sampleRows). \<exists>r\<in>set results.
               map_option extractHostName (Alias e) = Some (host r)
               \<and> (\<exists>w\<in>set (result_wwns r). wwn w = MemberWWN e \<and> fabric w = Fabric e)))
   \<and> validate codeUnitCompare
       (newFabricValidator [(row ''FAB-B'' ''srv2_1'' ''w5'' ''No'')\<lparr>Alias := None\<rparr>])
     = Inl TypeError
   \<and> dedupKey (row ''FAB-A'' ''srv1_1s'' [] ''Yes'') = ''FAB-A|srv1_1s|''
   \<and> dedupKey ((row ''FAB-A'' ''srv1_1s'' ''w1'' ''Yes'')\<lparr>MemberWWN := None\<rparr>)
       = ''FAB-A|srv1_1s|undefined''"
proof -
  let ?bad = "(row ''FAB-B'' ''srv2_1'' ''w5'' ''No'')\<lparr>Alias := None\<rparr>"
  have ok: "\<forall>e\<in>set sampleRows. Alias e \<noteq> None \<and> LoggedIn e \<noteq> None"
    by (simp add: sampleRows_def row_def)
  have bad: "\<exists>e\<in>set (removeDuplicates [?bad]). Alias e = None \<or> LoggedIn e = None"
    by (simp add: removeDuplicates_def dedupStep_def row_def)
  note t1 = C8_returns_on_text_fields
      [of sampleRows codeUnitCompare "row ''FAB-A'' ''srv1_1s'' [] ''Yes''"]
  note t2 = C8_returns_on_text_fields
      [of "[?bad]" codeUnitCompare "(row ''FAB-A'' ''srv1_1s'' ''w1'' ''Yes'')\<lparr>MemberWWN := None\<rparr>"]
  have k1: "dedupKey (row ''FAB-A'' ''srv1_1s'' [] ''Yes'') = ''FAB-A|srv1_1s|''"
    using t1 by (simp add: row_def)
  have k2: "dedupKey ((row ''FAB-A'' ''srv1_1s'' ''w1'' ''Yes'')\<lparr>MemberWWN := None\<rparr>)
       = ''FAB-A|srv1_1s|undefined''"
    using t2 by (simp add: row_def)
  have r: "validate codeUnitCompare (newFabricValidator [?bad]) = Inl TypeError"
    using t2 bad by blast
  from t1 ok k1 k2 r show ?thesis by blast
qed

text \<open>
  C8, as the spec has it, fails: a row without \<open>Logged In\<close> makes validate() raise, and an
  absent \<open>Member WWN / D,P\<close> does not enter the key as the empty string.
\<close>

theorem C8_counterexample:
  "validate codeUnitCompare
     (newFabricValidator [(row ''FAB-A'' ''srv1_1s'' ''w1'' ''Yes'')\<lparr>LoggedIn := None\<rparr>])
     = Inl TypeError
   \<and> dedupKey ((row ''FAB-A'' ''srv1_1s'' ''w1'' ''Yes'')\<lparr>MemberWWN := None\<rparr>)
     = ''FAB-A|srv1_1s|undefined''
   \<and> dedupKey ((row ''FAB-A'' ''srv1_1s'' ''w1'' ''Yes'')\<lparr>MemberWWN := None\<rparr>)
     \<noteq> ''FAB-A|srv1_1s|''"
  by (simp add: removeDuplicates_def dedupStep_def dedupKey_def templ_def run_validate)

end
